theory Spec2Isabelle
  imports Main
begin

section \<open>Python values and helpers shared by the notebooks\<close>

text \<open>
  The notebooks are linear scripts that call three hosted services.  Every raise of the
  source is a value of \<open>py_exception\<close>; a computation that can raise returns
  \<open>py_exception + 'a\<close> with \<open>Inl\<close> for the exception.
\<close>

datatype py_exception =
    RateLimitError
  | ConnectionError
  | KeyboardInterrupt
  | FileNotFoundError
  | PermissionError
  | UnicodeDecodeError
  | SyntaxError
  | JSONDecodeError
  | KeyError string
  | TypeError
  | IndexError
  | AttributeError

text \<open>Formatting a non-negative integer inside an f-string (\<^verbatim>\<open>f"{idx}"\<close>): decimal digits,
  no leading zero.\<close>

definition digit_char :: "nat \<Rightarrow> char" where
  "digit_char d = ''0123456789'' ! d"

fun str_nat :: "nat \<Rightarrow> string" where
  "str_nat n = (if n < 10 then [digit_char n] else str_nat (n div 10) @ [digit_char (n mod 10)])"

declare str_nat.simps [simp del]

text \<open>\<^verbatim>\<open>sep.join(parts)\<close> on strings.\<close>

fun py_join :: "string \<Rightarrow> string list \<Rightarrow> string" where
  "py_join sep [] = []"
| "py_join sep [x] = x"
| "py_join sep (x # y # rest) = x @ sep @ py_join sep (y # rest)"

text \<open>\<^verbatim>\<open>range(start, stop, step)\<close> for non-negative arguments.  The only call in the source
  has the constant step 100; Python raises ValueError for step 0, which this model maps to
  the empty range.\<close>

function py_range :: "nat \<Rightarrow> nat \<Rightarrow> nat \<Rightarrow> nat list" where
  "py_range start stop step =
     (if step = 0 \<or> stop \<le> start then [] else start # py_range (start + step) stop step)"
  by pat_completeness auto
termination
  by (relation "measure (\<lambda>(start, stop, step). stop - start)") auto

declare py_range.simps [simp del]

text \<open>\<^verbatim>\<open>xs[i:j]\<close> for non-negative \<open>i\<close> and \<open>j\<close>: both ends are clamped to the list.\<close>

definition py_slice :: "'a list \<Rightarrow> nat \<Rightarrow> nat \<Rightarrow> 'a list" where
  "py_slice xs i j = drop i (take j xs)"

section \<open>The retrieval notebook\<close>

subsection \<open>Services, events and state\<close>

text \<open>
  The embedding service and the vector index are outside the repository.  They are
  parameters of the model: an oracle is asked with the number of calls made to it so far
  and the arguments of the call, and answers with a result or an exception.  An embedding
  vector is a list of floats that the code only passes along, so its type is the
  parameter \<open>'v\<close>.  Every embedding call names the model \<^verbatim>\<open>voyage-2\<close>; the constant is not an
  argument of the oracle.  The input type is \<^verbatim>\<open>document\<close> in the upload loop and \<^verbatim>\<open>query\<close> in
  the keyword search.
\<close>

datatype input_type = Document | Query

type_synonym metadata = "string \<rightharpoonup> string"

type_synonym 'v vector_triple = "string \<times> 'v \<times> metadata"

type_synonym 'v embed_service = "nat \<Rightarrow> string list \<Rightarrow> input_type \<Rightarrow> py_exception + 'v list"

type_synonym 'v upsert_service = "nat \<Rightarrow> 'v vector_triple list \<Rightarrow> py_exception + unit"

text \<open>A match of a query response; the code reads only its metadata (the score and the
  values are never inspected).\<close>

record scored_match =
  match_id :: string
  match_metadata :: "metadata option"

type_synonym 'v query_service =
  "nat \<Rightarrow> 'v list \<Rightarrow> nat \<Rightarrow> bool \<Rightarrow> py_exception + scored_match list"

datatype 'v event =
    Embed_ok "string list" input_type
  | Embed_failed "string list" input_type py_exception
  | Sleep nat
  | Upsert_ok "'v vector_triple list"
  | Upsert_failed "'v vector_triple list" py_exception
  | Query_ok "'v list" nat bool
  | Query_failed "'v list" nat bool py_exception

record 'v world =
  embed_calls :: nat
  upsert_calls :: nat
  query_calls :: nat
  trace :: "'v event list"

definition world0 :: "'v world" where
  "world0 = \<lparr>embed_calls = 0, upsert_calls = 0, query_calls = 0, trace = []\<rparr>"

subsection \<open>The dataset loading loop\<close>




subsection \<open>The upload loop\<close>

text \<open>
  \<^verbatim>\<open>
  done = False
  while not done:
      try:
          res = vo.embed(descriptions_batch, model="voyage-2", input_type="document")
          done = True
      except:
          sleep(5)
  \<close>
  The loop has no bound, so it is a partial function: \<open>None\<close> is the run that never
  leaves the loop.  The bare \<^verbatim>\<open>except\<close> catches every exception of the call, whatever its
  class; \<^verbatim>\<open>sleep(5)\<close> is an event of the trace and returns.
\<close>

partial_function (option) embed_retry ::
  "'v embed_service \<Rightarrow> string list \<Rightarrow> 'v world \<Rightarrow> ('v list \<times> 'v world) option" where
  "embed_retry vo descriptions_batch w =
     (case vo (embed_calls w) descriptions_batch Document of
        Inr res \<Rightarrow>
          Some (res, w\<lparr>embed_calls := Suc (embed_calls w),
                       trace := trace w @ [Embed_ok descriptions_batch Document]\<rparr>)
      | Inl e \<Rightarrow>
          embed_retry vo descriptions_batch
            (w\<lparr>embed_calls := Suc (embed_calls w),
               trace := trace w @ [Embed_failed descriptions_batch Document e, Sleep 5]\<rparr>))"

definition batch_size :: nat where
  "batch_size = 100"

text \<open>
  \<^verbatim>\<open>
  embeds = [record for record in res.embeddings]
  ids_batch = [f"description_{idx}" for idx in range(i, i_end)]
  metadata_batch = [{'description': description} for description in descriptions_batch]
  to_upsert = list(zip(ids_batch, embeds, metadata_batch))
  \<close>
\<close>

definition description_id :: "nat \<Rightarrow> string" where
  "description_id idx = ''description_'' @ str_nat idx"

definition to_upsert :: "string list \<Rightarrow> nat \<Rightarrow> 'v list \<Rightarrow> 'v vector_triple list" where
  "to_upsert descriptions i embeddings =
     (let i_end = min (length descriptions) (i + batch_size);
          descriptions_batch = py_slice descriptions i i_end;
          embeds = map (\<lambda>record. record) embeddings;
          ids_batch = map description_id [i..<i_end];
          metadata_batch = map (\<lambda>description. [''description'' \<mapsto> description]) descriptions_batch
      in zip ids_batch (zip embeds metadata_batch))"

text \<open>The body of the \<^verbatim>\<open>for i in range(0, len(descriptions), batch_size)\<close> loop, run over the
  list of batch starts.  An exception of \<^verbatim>\<open>index.upsert\<close> is not caught and ends the run.\<close>

fun upload_loop ::
  "'v embed_service \<Rightarrow> 'v upsert_service \<Rightarrow> string list \<Rightarrow> nat list \<Rightarrow> 'v world
     \<Rightarrow> ((py_exception + unit) \<times> 'v world) option" where
  "upload_loop vo upsert descriptions [] w = Some (Inr (), w)"
| "upload_loop vo upsert descriptions (i # rest) w =
     (let i_end = min (length descriptions) (i + batch_size);
          descriptions_batch = py_slice descriptions i i_end
      in case embed_retry vo descriptions_batch w of
           None \<Rightarrow> None
         | Some (res, w1) \<Rightarrow>
             (let vectors = to_upsert descriptions i res
              in case upsert (upsert_calls w1) vectors of
                   Inl e \<Rightarrow>
                     Some (Inl e, w1\<lparr>upsert_calls := Suc (upsert_calls w1),
                                      trace := trace w1 @ [Upsert_failed vectors e]\<rparr>)
                 | Inr u \<Rightarrow>
                     upload_loop vo upsert descriptions rest
                       (w1\<lparr>upsert_calls := Suc (upsert_calls w1),
                           trace := trace w1 @ [Upsert_ok vectors]\<rparr>)))"

definition upload ::
  "'v embed_service \<Rightarrow> 'v upsert_service \<Rightarrow> string list \<Rightarrow> 'v world
     \<Rightarrow> ((py_exception + unit) \<times> 'v world) option" where
  "upload vo upsert descriptions w =
     upload_loop vo upsert descriptions (py_range 0 (length descriptions) batch_size) w"

subsection \<open>Completions, prompts and keywords\<close>

text \<open>
  \<^verbatim>\<open>
  def get_completion(prompt):
      completion = client.completions.create(
          model="claude-2.1", prompt=prompt, max_tokens_to_sample=1024)
      return completion.completion
  \<close>
  The completion service is a parameter: it is asked with the model name, the prompt and
  the token limit, and answers with the completion text or an exception.
\<close>

type_synonym completion_service = "string \<Rightarrow> string \<Rightarrow> nat \<Rightarrow> py_exception + string"

definition get_completion :: "completion_service \<Rightarrow> string \<Rightarrow> py_exception + string" where
  "get_completion client prompt =
     (case client ''claude-2.1'' prompt 1024 of
        Inl e \<Rightarrow> Inl e
      | Inr completion \<Rightarrow> Inr completion)"

definition create_keyword_prompt :: "string \<Rightarrow> string" where
  "create_keyword_prompt question =
     ''\<newline>\<newline>Human: Given a question, generate a list of 5 very diverse search keywords that can be used to search for products on Amazon.\<newline>\<newline>The question is: ''
     @ question
     @ ''\<newline>\<newline>Output your keywords as a JSON that has one property \"keywords\" that is a list of strings. Only output valid JSON.\<newline>\<newline>Assistant:{''"

text \<open>
  \<^verbatim>\<open>
  def format_results(extracted: list[str]) -> str:
      result = "\n".join(
          [f'<item index="{i+1}">\n<page_content>\n{r}\n</page_content>\n</item>'
           for i, r in enumerate(extracted)])
      return f"\n<search_results>\n{result}\n</search_results>"
  \<close>
\<close>

definition format_item :: "nat \<times> string \<Rightarrow> string" where
  "format_item ir =
     ''<item index=\"'' @ str_nat (fst ir + 1) @ ''\">\<newline><page_content>\<newline>'' @ snd ir
     @ ''\<newline></page_content>\<newline></item>''"

definition format_results :: "string list \<Rightarrow> string" where
  "format_results extracted =
     (let result = py_join ''\<newline>'' (map format_item (zip [0..<length extracted] extracted))
      in ''\<newline><search_results>\<newline>'' @ result @ ''\<newline></search_results>'')"

definition create_answer_prompt :: "string list \<Rightarrow> string \<Rightarrow> string" where
  "create_answer_prompt results_list question =
     ''\<newline>\<newline>Human: '' @ format_results results_list
     @ '' Using the search results provided within the <search_results></search_results> tags, please answer the following question <question>''
     @ question
     @ ''</question>. Do not reference the search results in your answer.\<newline>\<newline>Assistant:''"

text \<open>Python values as far as the notebooks build or read them: dictionary literals keep
  their order and have distinct keys.\<close>

datatype pyval =
    PNone
  | PBool bool
  | PInt int
  | PStr string
  | PList "pyval list"
  | PDict "(string \<times> pyval) list"




subsection \<open>The keyword search loop\<close>

text \<open>
  \<^verbatim>\<open>
  results_list = []
  for keyword in keywords_list:
      query_embed = vo.embed([keyword], model="voyage-2", input_type="query")
      search_results = index.query(vector=query_embed.embeddings, top_k=3, include_metadata=True)
      for search_result in search_results.matches:
          results_list.append(search_result['metadata']['description'])
  \<close>
  No call of this loop is guarded: an exception of the embedding call, of the query or of
  a subscript ends the run.  A match that carries no metadata has \<^verbatim>\<open>None\<close> there, and its
  subscript raises TypeError; metadata without the key raises KeyError.
\<close>

fun append_descriptions :: "scored_match list \<Rightarrow> string list \<Rightarrow> py_exception + string list" where
  "append_descriptions [] results_list = Inr results_list"
| "append_descriptions (search_result # rest) results_list =
     (case match_metadata search_result of
        None \<Rightarrow> Inl TypeError
      | Some md \<Rightarrow>
          (case md ''description'' of
             None \<Rightarrow> Inl (KeyError ''description'')
           | Some d \<Rightarrow> append_descriptions rest (results_list @ [d])))"

fun search_loop ::
  "'v embed_service \<Rightarrow> 'v query_service \<Rightarrow> string list \<Rightarrow> string list \<Rightarrow> 'v world
     \<Rightarrow> (py_exception + string list) \<times> 'v world" where
  "search_loop vo query [] results_list w = (Inr results_list, w)"
| "search_loop vo query (keyword # rest) results_list w =
     (case vo (embed_calls w) [keyword] Query of
        Inl e \<Rightarrow>
          (Inl e, w\<lparr>embed_calls := Suc (embed_calls w),
                     trace := trace w @ [Embed_failed [keyword] Query e]\<rparr>)
      | Inr query_embed \<Rightarrow>
          (let w1 = w\<lparr>embed_calls := Suc (embed_calls w),
                       trace := trace w @ [Embed_ok [keyword] Query]\<rparr>
           in case query (query_calls w1) query_embed 3 True of
                Inl e \<Rightarrow>
                  (Inl e, w1\<lparr>query_calls := Suc (query_calls w1),
                              trace := trace w1 @ [Query_failed query_embed 3 True e]\<rparr>)
              | Inr matches \<Rightarrow>
                  (let w2 = w1\<lparr>query_calls := Suc (query_calls w1),
                                trace := trace w1 @ [Query_ok query_embed 3 True]\<rparr>
                   in case append_descriptions matches results_list of
                        Inl e \<Rightarrow> (Inl e, w2)
                      | Inr results_list' \<Rightarrow> search_loop vo query rest results_list' w2)))"

definition keyword_search ::
  "'v embed_service \<Rightarrow> 'v query_service \<Rightarrow> string list \<Rightarrow> 'v world
     \<Rightarrow> (py_exception + string list) \<times> 'v world" where
  "keyword_search vo query keywords_list w = search_loop vo query keywords_list [] w"

section \<open>The document notebook\<close>

text \<open>
  \<^verbatim>\<open>
  def get_completion(client, messages):
      return client.messages.create(
          model=MODEL_NAME, max_tokens=2048, messages=messages
      ).content[0].text
  \<close>
  A response is a list of content blocks; a block is a text block or a tool-use block
  (id, name, input), and only a text block has the attribute \<^verbatim>\<open>text\<close>.  The input of a
  tool-use block is a JSON object whose values the code never inspects, so their type is
  the parameter \<open>'j\<close>.
\<close>

datatype 'j content_block =
    Text_block string
  | Tool_use_block string string "(string \<times> 'j) list"

type_synonym ('m, 'j) messages_service =
  "string \<Rightarrow> nat \<Rightarrow> 'm \<Rightarrow> py_exception + 'j content_block list"

definition get_completion_messages ::
  "('m, 'j) messages_service \<Rightarrow> 'm \<Rightarrow> py_exception + string" where
  "get_completion_messages client messages =
     (case client ''claude-3-5-sonnet-20241022'' 2048 messages of
        Inl e \<Rightarrow> Inl e
      | Inr content \<Rightarrow>
          (case content of
             [] \<Rightarrow> Inl IndexError
           | first # rest \<Rightarrow>
               (case first of
                  Text_block t \<Rightarrow> Inr t
                | Tool_use_block tid name input \<Rightarrow> Inl AttributeError)))"

section \<open>The structured-JSON notebook\<close>

subsection \<open>The extraction loop and the printed output\<close>

text \<open>
  Each example runs the same loop with its own tool name and result variable:
  \<^verbatim>\<open>
  json_summary = None
  for content in response.content:
      if content.type == "tool_use" and content.name == "print_summary":
          json_summary = content.input
          break
  \<close>
  The result is \<open>None\<close> (Python's \<^verbatim>\<open>None\<close>) or the input dictionary of a block.
\<close>

fun extract_tool_input :: "string \<Rightarrow> 'j content_block list \<Rightarrow> (string \<times> 'j) list option" where
  "extract_tool_input tool [] = None"
| "extract_tool_input tool (content # rest) =
     (case content of
        Tool_use_block tid name input \<Rightarrow>
          (if name = tool then Some input else extract_tool_input tool rest)
      | Text_block t \<Rightarrow> extract_tool_input tool rest)"

text \<open>The test \<^verbatim>\<open>if json_summary:\<close> is Python's truth value of the variable: \<^verbatim>\<open>None\<close> is
  false, and a dictionary is true exactly when it is not empty.\<close>

definition truthy :: "(string \<times> 'j) list option \<Rightarrow> bool" where
  "truthy v = (case v of None \<Rightarrow> False | Some d \<Rightarrow> d \<noteq> [])"

text \<open>What a cell prints: a line of text, \<^verbatim>\<open>json.dumps(value, indent=n)\<close> of a variable,
  or the variable itself.\<close>

datatype 'j printed =
    Print_text string
  | Print_json_dumps "(string \<times> 'j) list option" nat
  | Print_value "(string \<times> 'j) list option"

text \<open>
  \<^verbatim>\<open>
  if json_summary:
      print("JSON Summary:")
      print(json.dumps(json_summary, indent=2))
  else:
      print("No JSON summary found in the response.")
  \<close>
\<close>

definition example1 :: "'j content_block list \<Rightarrow> 'j printed list" where
  "example1 content =
     (let json_summary = extract_tool_input ''print_summary'' content
      in if truthy json_summary
         then [Print_text ''JSON Summary:'', Print_json_dumps json_summary 2]
         else [Print_text ''No JSON summary found in the response.''])"

text \<open>Example 2 prints the variable itself: \<^verbatim>\<open>print(json_entities)\<close>.\<close>

definition example2 :: "'j content_block list \<Rightarrow> 'j printed list" where
  "example2 content =
     (let json_entities = extract_tool_input ''print_entities'' content
      in if truthy json_entities
         then [Print_text ''Extracted Entities (JSON):'', Print_value json_entities]
         else [Print_text ''No entities found in the response.''])"

definition example3 :: "'j content_block list \<Rightarrow> 'j printed list" where
  "example3 content =
     (let json_sentiment = extract_tool_input ''print_sentiment_scores'' content
      in if truthy json_sentiment
         then [Print_text ''Sentiment Analysis (JSON):'', Print_json_dumps json_sentiment 2]
         else [Print_text ''No sentiment analysis found in the response.''])"

definition example4 :: "'j content_block list \<Rightarrow> 'j printed list" where
  "example4 content =
     (let json_classification = extract_tool_input ''print_classification'' content
      in if truthy json_classification
         then [Print_text ''Text Classification (JSON):'', Print_json_dumps json_classification 2]
         else [Print_text ''No text classification found in the response.''])"

text \<open>
  Example 5 runs after Example 4 in the same notebook, and its print statement names the
  variable of Example 4:
  \<^verbatim>\<open>
  if tool_output:
      print("Characteristics (JSON):")
      print(json.dumps(json_classification, indent=2))
  else:
      print("Something went wrong.")
  \<close>
\<close>

definition example5 ::
  "(string \<times> 'j) list option \<Rightarrow> 'j content_block list \<Rightarrow> 'j printed list" where
  "example5 json_classification content =
     (let tool_output = extract_tool_input ''print_all_characteristics'' content
      in if truthy tool_output
         then [Print_text ''Characteristics (JSON):'', Print_json_dumps json_classification 2]
         else [Print_text ''Something went wrong.''])"

text \<open>The cells of Example 4 and Example 5 in notebook order, on the two responses.\<close>

definition examples_4_and_5 ::
  "'j content_block list \<Rightarrow> 'j content_block list \<Rightarrow> 'j printed list \<times> 'j printed list" where
  "examples_4_and_5 response4 response5 =
     (let json_classification = extract_tool_input ''print_classification'' response4
      in (example4 response4, example5 json_classification response5))"

subsection \<open>The tool definitions\<close>

text \<open>The five \<^verbatim>\<open>tools\<close> lists hold one tool each; the dictionaries are written as in the
  cells.\<close>

definition print_summary_tool :: pyval where
  "print_summary_tool = PDict
     [(''name'', PStr ''print_summary''),
      (''description'', PStr ''Prints a summary of the article.''),
      (''input_schema'', PDict
         [(''type'', PStr ''object''),
          (''properties'', PDict
             [(''author'', PDict [(''type'', PStr ''string''),
                                  (''description'', PStr ''Name of the article author'')]),
              (''topics'', PDict
                 [(''type'', PStr ''array''),
                  (''items'', PDict [(''type'', PStr ''string'')]),
                  (''description'', PStr ''Array of topics, e.g. [\"tech\", \"politics\"]. Should be as specific as possible, and can overlap.'')]),
              (''summary'', PDict [(''type'', PStr ''string''),
                                   (''description'', PStr ''Summary of the article. One or two paragraphs max.'')]),
              (''coherence'', PDict [(''type'', PStr ''integer''),
                                     (''description'', PStr (''Coherence of the article'' @ [CHR 0x27] @ ''s key points, 0-100 (inclusive)''))]),
              (''persuasion'', PDict [(''type'', PStr ''number''),
                                      (''description'', PStr (''Article'' @ [CHR 0x27] @ ''s persuasion score, 0.0-1.0 (inclusive)''))])]),
          (''required'', PList [PStr ''author'', PStr ''topics'', PStr ''summary'',
                                PStr ''coherence'', PStr ''persuasion'', PStr ''counterpoint''])])]"

definition print_entities_tool :: pyval where
  "print_entities_tool = PDict
     [(''name'', PStr ''print_entities''),
      (''description'', PStr ''Prints extract named entities.''),
      (''input_schema'', PDict
         [(''type'', PStr ''object''),
          (''properties'', PDict
             [(''entities'', PDict
                 [(''type'', PStr ''array''),
                  (''items'', PDict
                     [(''type'', PStr ''object''),
                      (''properties'', PDict
                         [(''name'', PDict [(''type'', PStr ''string''),
                                            (''description'', PStr ''The extracted entity name.'')]),
                          (''type'', PDict [(''type'', PStr ''string''),
                                            (''description'', PStr ''The entity type (e.g., PERSON, ORGANIZATION, LOCATION).'')]),
                          (''context'', PDict [(''type'', PStr ''string''),
                                               (''description'', PStr ''The context in which the entity appears in the text.'')])]),
                      (''required'', PList [PStr ''name'', PStr ''type'', PStr ''context''])])])]),
          (''required'', PList [PStr ''entities''])])]"

definition print_sentiment_scores_tool :: pyval where
  "print_sentiment_scores_tool = PDict
     [(''name'', PStr ''print_sentiment_scores''),
      (''description'', PStr ''Prints the sentiment scores of a given text.''),
      (''input_schema'', PDict
         [(''type'', PStr ''object''),
          (''properties'', PDict
             [(''positive_score'', PDict [(''type'', PStr ''number''),
                                          (''description'', PStr ''The positive sentiment score, ranging from 0.0 to 1.0.'')]),
              (''negative_score'', PDict [(''type'', PStr ''number''),
                                          (''description'', PStr ''The negative sentiment score, ranging from 0.0 to 1.0.'')]),
              (''neutral_score'', PDict [(''type'', PStr ''number''),
                                         (''description'', PStr ''The neutral sentiment score, ranging from 0.0 to 1.0.'')])]),
          (''required'', PList [PStr ''positive_score'', PStr ''negative_score'',
                                PStr ''neutral_score''])])]"

definition print_classification_tool :: pyval where
  "print_classification_tool = PDict
     [(''name'', PStr ''print_classification''),
      (''description'', PStr ''Prints the classification results.''),
      (''input_schema'', PDict
         [(''type'', PStr ''object''),
          (''properties'', PDict
             [(''categories'', PDict
                 [(''type'', PStr ''array''),
                  (''items'', PDict
                     [(''type'', PStr ''object''),
                      (''properties'', PDict
                         [(''name'', PDict [(''type'', PStr ''string''),
                                            (''description'', PStr ''The category name.'')]),
                          (''score'', PDict [(''type'', PStr ''number''),
                                             (''description'', PStr ''The classification score for the category, ranging from 0.0 to 1.0.'')])]),
                      (''required'', PList [PStr ''name'', PStr ''score''])])])]),
          (''required'', PList [PStr ''categories''])])]"

definition print_all_characteristics_tool :: pyval where
  "print_all_characteristics_tool = PDict
     [(''name'', PStr ''print_all_characteristics''),
      (''description'', PStr ''Prints all characteristics which are provided.''),
      (''input_schema'', PDict
         [(''type'', PStr ''object''),
          (''additionalProperties'', PBool True)])]"

text \<open>Reading a schema: a key that is absent gives no names.\<close>

fun dict_get :: "pyval \<Rightarrow> string \<Rightarrow> pyval option" where
  "dict_get (PDict kvs) key = map_of kvs key"
| "dict_get PNone key = None"
| "dict_get (PBool b) key = None"
| "dict_get (PInt n) key = None"
| "dict_get (PStr s) key = None"
| "dict_get (PList xs) key = None"

fun str_items :: "pyval list \<Rightarrow> string list" where
  "str_items [] = []"
| "str_items (PStr s # rest) = s # str_items rest"
| "str_items (v # rest) = str_items rest"

definition input_schema :: "pyval \<Rightarrow> pyval" where
  "input_schema tool = (case dict_get tool ''input_schema'' of Some s \<Rightarrow> s | None \<Rightarrow> PNone)"

definition required_names :: "pyval \<Rightarrow> string list" where
  "required_names schema =
     (case dict_get schema ''required'' of Some (PList xs) \<Rightarrow> str_items xs | _ \<Rightarrow> [])"

definition property_names :: "pyval \<Rightarrow> string list" where
  "property_names schema =
     (case dict_get schema ''properties'' of Some (PDict kvs) \<Rightarrow> map fst kvs | _ \<Rightarrow> [])"

definition required_declared :: "pyval \<Rightarrow> bool" where
  "required_declared schema =
     list_all (\<lambda>r. r \<in> set (property_names schema)) (required_names schema)"

text \<open>The schema of the elements of an array property.\<close>

definition items_schema :: "pyval \<Rightarrow> string \<Rightarrow> pyval" where
  "items_schema schema property =
     (case dict_get schema ''properties'' of
        Some props \<Rightarrow>
          (case dict_get props property of
             Some p \<Rightarrow> (case dict_get p ''items'' of Some s \<Rightarrow> s | None \<Rightarrow> PNone)
           | None \<Rightarrow> PNone)
      | None \<Rightarrow> PNone)"

subsection \<open>Observations on a trace\<close>

text \<open>The events a retry loop leaves before its first successful attempt: the attempts
  numbered \<open>n\<close> to \<open>n + k - 1\<close> failed, and each failure is followed by a sleep of 5
  seconds.\<close>

definition retry_failures :: "'v embed_service \<Rightarrow> string list \<Rightarrow> nat \<Rightarrow> nat \<Rightarrow> 'v event list" where
  "retry_failures vo b n k =
     concat (map (\<lambda>j. [Embed_failed b Document (projl (vo (n + j) b Document)), Sleep 5]) [0..<k])"

fun is_success :: "'v event \<Rightarrow> bool" where
  "is_success (Embed_ok b t) = True"
| "is_success (Upsert_ok vs) = True"
| "is_success (Query_ok v k m) = True"
| "is_success (Embed_failed b t e) = False"
| "is_success (Sleep s) = False"
| "is_success (Upsert_failed vs e) = False"
| "is_success (Query_failed v k m e) = False"

definition successes :: "'v event list \<Rightarrow> 'v event list" where
  "successes tr = filter is_success tr"

fun upsert_payload :: "'v event \<Rightarrow> 'v vector_triple list list" where
  "upsert_payload (Upsert_ok vs) = [vs]"
| "upsert_payload (Upsert_failed vs e) = [vs]"
| "upsert_payload (Embed_ok b t) = []"
| "upsert_payload (Embed_failed b t e) = []"
| "upsert_payload (Sleep s) = []"
| "upsert_payload (Query_ok v k m) = []"
| "upsert_payload (Query_failed v k m e) = []"

text \<open>Every list of triples handed to \<^verbatim>\<open>index.upsert\<close>, in order, whether the call returned
  or raised.\<close>

definition upserted :: "'v event list \<Rightarrow> 'v vector_triple list list" where
  "upserted tr = concat (map upsert_payload tr)"

definition upserted_ids :: "'v event list \<Rightarrow> string list" where
  "upserted_ids tr = map fst (concat (upserted tr))"

fun sleep_seconds :: "'v event \<Rightarrow> nat" where
  "sleep_seconds (Sleep s) = s"
| "sleep_seconds (Embed_ok b t) = 0"
| "sleep_seconds (Embed_failed b t e) = 0"
| "sleep_seconds (Upsert_ok vs) = 0"
| "sleep_seconds (Upsert_failed vs e) = 0"
| "sleep_seconds (Query_ok v k m) = 0"
| "sleep_seconds (Query_failed v k m e) = 0"

definition seconds_slept :: "'v event list \<Rightarrow> nat" where
  "seconds_slept tr = sum_list (map sleep_seconds tr)"

text \<open>The slice \<^verbatim>\<open>descriptions[i:i_end]\<close> of the batch that starts at \<open>i\<close>, and the list of all
  slices the loop walks.\<close>

definition batch_at :: "string list \<Rightarrow> nat \<Rightarrow> string list" where
  "batch_at descriptions i = py_slice descriptions i (min (length descriptions) (i + batch_size))"

definition batches :: "string list \<Rightarrow> string list list" where
  "batches descriptions =
     map (batch_at descriptions) (py_range 0 (length descriptions) batch_size)"

text \<open>The values the loop variable \<^verbatim>\<open>i\<close> takes: \<^verbatim>\<open>range(0, len(descriptions), batch_size)\<close>.\<close>

definition batch_starts :: "string list \<Rightarrow> nat list" where
  "batch_starts descriptions = py_range 0 (length descriptions) batch_size"

text \<open>The embedding calls of a run are numbered.  When the successful call of batch
  \<open>j\<close> has number \<open>ns ! j\<close>, the retry loop of batch \<open>j\<close> starts at call number
  \<open>first_call n0 ns j\<close>: at \<open>n0\<close> for the first batch, and right after the successful call
  of the batch before for the others.\<close>

definition first_call :: "nat \<Rightarrow> nat list \<Rightarrow> nat \<Rightarrow> nat" where
  "first_call n0 ns j = (if j = 0 then n0 else Suc (ns ! (j - 1)))"

text \<open>The answer \<open>ress ! j\<close> is the first answer for batch \<open>j\<close> that does not raise: every
  call of its retry loop before call \<open>ns ! j\<close> raises, and call \<open>ns ! j\<close> returns it.\<close>

definition first_answer ::
  "'v embed_service \<Rightarrow> string list \<Rightarrow> nat list \<Rightarrow> nat \<Rightarrow> nat list \<Rightarrow> 'v list list \<Rightarrow> nat
     \<Rightarrow> bool" where
  "first_answer vo ds starts n0 ns ress j \<longleftrightarrow>
     first_call n0 ns j \<le> ns ! j
     \<and> (\<forall>m. first_call n0 ns j \<le> m \<and> m < ns ! j
            \<longrightarrow> isl (vo m (batch_at ds (starts ! j)) Document))
     \<and> vo (ns ! j) (batch_at ds (starts ! j)) Document = Inr (ress ! j)"

text \<open>The events of batch \<open>j\<close> in a run that completes: the failed attempts with their
  sleeps, the successful embedding request, and the upsert of the triples built from its
  answer.\<close>

definition batch_events ::
  "'v embed_service \<Rightarrow> string list \<Rightarrow> nat list \<Rightarrow> nat \<Rightarrow> nat list \<Rightarrow> 'v list list \<Rightarrow> nat
     \<Rightarrow> 'v event list" where
  "batch_events vo ds starts n0 ns ress j =
     retry_failures vo (batch_at ds (starts ! j)) (first_call n0 ns j) (ns ! j - first_call n0 ns j)
     @ [Embed_ok (batch_at ds (starts ! j)) Document,
        Upsert_ok (to_upsert ds (starts ! j) (ress ! j))]"

text \<open>The value of a decimal numeral, used to show that formatting an index loses nothing.\<close>

definition digit_value :: "char \<Rightarrow> nat" where
  "digit_value c = of_char c - 48"

definition decimal_value :: "string \<Rightarrow> nat" where
  "decimal_value s = foldl (\<lambda>a c. 10 * a + digit_value c) 0 s"

subsection \<open>Sample services for concrete runs\<close>

text \<open>An embedding service that raises on two calls out of three (a rate limit, then an
  interrupt) and otherwise answers with the length of each text as its vector; an index
  that accepts every upsert.\<close>

definition flaky_embed :: "nat embed_service" where
  "flaky_embed n texts t =
     (if n mod 3 = 0 then Inl RateLimitError
      else if n mod 3 = 1 then Inl KeyboardInterrupt
      else Inr (map length texts))"

definition upsert_accepts :: "nat upsert_service" where
  "upsert_accepts n vectors = Inr ()"

subsection \<open>Observations on the search loop and on a response\<close>

text \<open>The requests sent to \<^verbatim>\<open>index.query\<close> (vector, \<^verbatim>\<open>top_k\<close>, \<^verbatim>\<open>include_metadata\<close>), in order,
  whether the call returned or raised.\<close>

fun query_request :: "'v event \<Rightarrow> ('v list \<times> nat \<times> bool) list" where
  "query_request (Query_ok v k m) = [(v, k, m)]"
| "query_request (Query_failed v k m e) = [(v, k, m)]"
| "query_request (Embed_ok b t) = []"
| "query_request (Embed_failed b t e) = []"
| "query_request (Sleep s) = []"
| "query_request (Upsert_ok vs) = []"
| "query_request (Upsert_failed vs e) = []"

definition queries :: "'v event list \<Rightarrow> ('v list \<times> nat \<times> bool) list" where
  "queries tr = concat (map query_request tr)"

text \<open>The value of \<^verbatim>\<open>search_result['metadata']['description']\<close> where both subscripts
  succeed.\<close>

definition match_description :: "scored_match \<Rightarrow> string option" where
  "match_description search_result =
     (case match_metadata search_result of None \<Rightarrow> None | Some md \<Rightarrow> md ''description'')"

text \<open>A content block whose type is \<^verbatim>\<open>tool_use\<close> and whose name is the given tool name, and
  the input of a block that has one.\<close>

definition matching :: "string \<Rightarrow> 'j content_block \<Rightarrow> bool" where
  "matching tool content =
     (case content of Tool_use_block tid name input \<Rightarrow> name = tool | Text_block t \<Rightarrow> False)"

definition block_input :: "'j content_block \<Rightarrow> (string \<times> 'j) list option" where
  "block_input content =
     (case content of Tool_use_block tid name input \<Rightarrow> Some input | Text_block t \<Rightarrow> None)"

subsection \<open>Sample services for concrete searches\<close>

text \<open>An embedding service that never raises, and an index that answers every query with
  the first \<^verbatim>\<open>top_k\<close> of four stored matches.\<close>

definition embed_lengths :: "nat embed_service" where
  "embed_lengths n texts t = Inr (map length texts)"

definition sample_matches :: "scored_match list" where
  "sample_matches =
     [\<lparr>match_id = ''description_1771'', match_metadata = Some [''description'' \<mapsto> ''science kit'']\<rparr>,
      \<lparr>match_id = ''description_3133'', match_metadata = Some [''description'' \<mapsto> ''magnet kit'']\<rparr>,
      \<lparr>match_id = ''description_1792'', match_metadata = Some [''description'' \<mapsto> ''atom model'']\<rparr>,
      \<lparr>match_id = ''description_1787'', match_metadata = Some [''description'' \<mapsto> ''genetics kit'']\<rparr>]"

definition sample_query :: "nat query_service" where
  "sample_query n vector top_k include_metadata = Inr (take top_k sample_matches)"

text \<open>Another index, which answers every query with its first match only.\<close>

definition sparse_query :: "nat query_service" where
  "sparse_query n vector top_k include_metadata = Inr (take 1 sample_matches)"

subsection \<open>Observations and samples for the unguarded calls\<close>













subsection \<open>Calling the functions the notebooks define\<close>

text \<open>
  The notebooks define five functions.  A call names the function and gives its explicit
  arguments; it runs against the two generation services, which are all that can differ
  between two runs on equal arguments.  Arguments that do not fit the function raise
  TypeError.
\<close>

datatype nb_function =
    Get_completion
  | Create_keyword_prompt
  | Format_results
  | Create_answer_prompt
  | Get_completion_messages

datatype 'm nb_args =
    Args_prompt string
  | Args_question string
  | Args_extracted "string list"
  | Args_results_question "string list" string
  | Args_messages 'm

fun call_defined ::
  "completion_service \<Rightarrow> ('m, 'j) messages_service \<Rightarrow> nb_function \<Rightarrow> 'm nb_args
     \<Rightarrow> py_exception + string" where
  "call_defined client mclient Get_completion (Args_prompt prompt) = get_completion client prompt"
| "call_defined client mclient Create_keyword_prompt (Args_question question) =
     Inr (create_keyword_prompt question)"
| "call_defined client mclient Format_results (Args_extracted extracted) =
     Inr (format_results extracted)"
| "call_defined client mclient Create_answer_prompt (Args_results_question results_list question) =
     Inr (create_answer_prompt results_list question)"
| "call_defined client mclient Get_completion_messages (Args_messages messages) =
     get_completion_messages mclient messages"
| "call_defined client mclient f args = Inl TypeError"

text \<open>Two completion services and two message services that answer differently.\<close>

definition echo_client :: completion_service where
  "echo_client model prompt max_tokens = Inr prompt"

definition terse_client :: completion_service where
  "terse_client model prompt max_tokens = Inr ''ok''"

definition echo_messages :: "(string, string) messages_service" where
  "echo_messages model max_tokens messages = Inr [Text_block messages]"

definition terse_messages :: "(string, string) messages_service" where
  "terse_messages model max_tokens messages = Inr [Text_block ''ok'']"

section \<open>The retry loop around the embedding call\<close>

lemma retry_failures_0: "retry_failures vo b n 0 = []"
  by (simp add: retry_failures_def)

lemma retry_failures_Suc_front:
  "retry_failures vo b n (Suc k) =
     [Embed_failed b Document (projl (vo n b Document)), Sleep 5] @ retry_failures vo b (Suc n) k"
proof -
  have "[0..<Suc k] = 0 # map Suc [0..<k]"
    by (simp add: upt_conv_Cons map_Suc_upt del: upt_Suc)
  then show ?thesis
    by (simp add: retry_failures_def comp_def del: upt_Suc)
qed

lemma embed_retry_success:
  "(\<forall>j<k. isl (vo (embed_calls w + j) b Document)) \<Longrightarrow>
   vo (embed_calls w + k) b Document = Inr res \<Longrightarrow>
   embed_retry vo b w =
     Some (res, w\<lparr>embed_calls := Suc (embed_calls w + k),
                  trace := trace w @ retry_failures vo b (embed_calls w) k @ [Embed_ok b Document]\<rparr>)"
proof (induction k arbitrary: w)
  case 0
  then show ?case
    by (subst embed_retry.simps) (simp add: retry_failures_0)
next
  case (Suc k)
  from Suc.prems(1) have "isl (vo (embed_calls w) b Document)"
    by (metis add.right_neutral zero_less_Suc)
  then obtain e where e: "vo (embed_calls w) b Document = Inl e"
    by (auto simp: isl_def)
  define w1 where "w1 = w\<lparr>embed_calls := Suc (embed_calls w),
               trace := trace w @ [Embed_failed b Document e, Sleep 5]\<rparr>"
  have step: "embed_retry vo b w = embed_retry vo b w1"
    by (subst embed_retry.simps) (simp add: e w1_def)
  have a: "\<forall>j<k. isl (vo (embed_calls w1 + j) b Document)"
    using Suc.prems(1) by (auto simp: w1_def)
  have b: "vo (embed_calls w1 + k) b Document = Inr res"
    using Suc.prems(2) by (simp add: w1_def)
  show ?case
    unfolding step Suc.IH [OF a b]
    by (simp add: w1_def retry_failures_Suc_front e)
qed

lemma embed_retry_returns_only_if:
  assumes "embed_retry vo b w = Some r"
  shows "\<exists>k. \<not> isl (vo (embed_calls w + k) b Document)"
proof (rule embed_retry.raw_induct
    [where P = "\<lambda>vo b w r. \<exists>k. \<not> isl (vo (embed_calls w + k) b Document)", OF _ assms])
  fix f :: "'a embed_service \<Rightarrow> string list \<Rightarrow> 'a world \<Rightarrow> ('a list \<times> 'a world) option"
    and vo b w r
  assume IH: "\<And>vo b w r. f vo b w = Some r \<Longrightarrow> \<exists>k. \<not> isl (vo (embed_calls w + k) b Document)"
    and body: "(case vo (embed_calls w) b Document of
        Inr res \<Rightarrow>
          Some (res, w\<lparr>embed_calls := Suc (embed_calls w),
                       trace := trace w @ [Embed_ok b Document]\<rparr>)
      | Inl e \<Rightarrow>
          f vo b
            (w\<lparr>embed_calls := Suc (embed_calls w),
               trace := trace w @ [Embed_failed b Document e, Sleep 5]\<rparr>)) = Some r"
  show "\<exists>k. \<not> isl (vo (embed_calls w + k) b Document)"
  proof (cases "vo (embed_calls w) b Document")
    case (Inr res)
    then have "\<not> isl (vo (embed_calls w + 0) b Document)" by simp
    then show ?thesis by blast
  next
    case (Inl e)
    with body have "f vo b (w\<lparr>embed_calls := Suc (embed_calls w),
               trace := trace w @ [Embed_failed b Document e, Sleep 5]\<rparr>) = Some r"
      by simp
    from IH [OF this] obtain k where "\<not> isl (vo (Suc (embed_calls w) + k) b Document)"
      by auto
    then have "\<not> isl (vo (embed_calls w + Suc k) b Document)" by simp
    then show ?thesis by blast
  qed
qed

lemma embed_retry_returns_if:
  assumes "\<not> isl (vo (embed_calls w + k) b Document)"
  shows "\<exists>r. embed_retry vo b w = Some r"
proof -
  define m where "m = (LEAST k. \<not> isl (vo (embed_calls w + k) b Document))"
  have m: "\<not> isl (vo (embed_calls w + m) b Document)"
    unfolding m_def using assms by (rule LeastI)
  have least: "\<forall>j<m. isl (vo (embed_calls w + j) b Document)"
    unfolding m_def using not_less_Least by blast
  from m obtain res where "vo (embed_calls w + m) b Document = Inr res"
    by (cases "vo (embed_calls w + m) b Document") auto
  with least have "embed_retry vo b w =
     Some (res, w\<lparr>embed_calls := Suc (embed_calls w + m),
                  trace := trace w @ retry_failures vo b (embed_calls w) m @ [Embed_ok b Document]\<rparr>)"
    by (rule embed_retry_success [of m vo w b res])
  then show ?thesis by blast
qed

section \<open>The slices of the upload loop\<close>

lemma py_slice_batch:
  "py_slice ds i (min (length ds) (i + step)) = take step (drop i ds)"
proof -
  have "take (min (length ds) (i + step)) ds = take (i + step) ds"
    by (simp add: min_def)
  then show ?thesis
    by (simp add: py_slice_def drop_take)
qed

lemma py_range_bounds:
  "i \<in> set (py_range s n step) \<Longrightarrow> s \<le> i \<and> i < n \<and> 0 < step"
proof (induction s n step rule: py_range.induct)
  case (1 start stop step)
  show ?case
  proof (cases "step = 0 \<or> stop \<le> start")
    case True
    with 1(2) show ?thesis by (simp add: py_range.simps)
  next
    case False
    with 1(2) have "i = start \<or> i \<in> set (py_range (start + step) stop step)"
      by (subst (asm) py_range.simps) simp
    then show ?thesis
      using False 1(1) by auto
  qed
qed

lemma concat_slices:
  "0 < step \<Longrightarrow>
   concat (map (\<lambda>i. take step (drop i ds)) (py_range s (length ds) step)) = drop s ds"
proof (induction s "length ds" step rule: py_range.induct)
  case (1 start step)
  show ?case
  proof (cases "length ds \<le> start")
    case True
    then show ?thesis by (simp add: py_range.simps)
  next
    case False
    with 1 have IH: "concat (map (\<lambda>i. take step (drop i ds)) (py_range (start + step) (length ds) step))
        = drop (start + step) ds"
      by simp
    have "py_range start (length ds) step = start # py_range (start + step) (length ds) step"
      using False 1(2) by (subst py_range.simps) simp
    then have "concat (map (\<lambda>i. take step (drop i ds)) (py_range start (length ds) step))
        = take step (drop start ds) @ drop (start + step) ds"
      by (simp add: IH)
    also have "\<dots> = take step (drop start ds) @ drop step (drop start ds)"
      by (simp add: add.commute)
    also have "\<dots> = drop start ds"
      by (rule append_take_drop_id)
    finally show ?thesis .
  qed
qed

lemma batch_at_take: "batch_at ds i = take batch_size (drop i ds)"
  by (simp add: batch_at_def py_slice_batch)

lemma batches_concat: "concat (batches ds) = ds"
proof -
  have "batches ds = map (\<lambda>i. take batch_size (drop i ds)) (py_range 0 (length ds) batch_size)"
    by (simp add: batches_def batch_at_take)
  then show ?thesis
    using concat_slices [of batch_size ds 0] by (simp add: batch_size_def)
qed

lemma batches_length:
  assumes "b \<in> set (batches ds)"
  shows "1 \<le> length b \<and> length b \<le> 100"
proof -
  from assms obtain i where i: "i \<in> set (py_range 0 (length ds) batch_size)"
    and b: "b = take batch_size (drop i ds)"
    by (auto simp: batches_def batch_at_take)
  from py_range_bounds [OF i] have "i < length ds" by simp
  then have "1 \<le> length ds - i" by arith
  then show ?thesis
    by (simp add: b batch_size_def)
qed

section \<open>The trace of the upload loop\<close>

lemma successes_append: "successes (xs @ ys) = successes xs @ successes ys"
  by (simp add: successes_def)

lemma upserted_append: "upserted (xs @ ys) = upserted xs @ upserted ys"
  by (simp add: upserted_def)

lemma seconds_slept_append: "seconds_slept (xs @ ys) = seconds_slept xs + seconds_slept ys"
  by (simp add: seconds_slept_def)

lemma successes_retry_failures: "successes (retry_failures vo b n k) = []"
  by (induction k arbitrary: n) (simp_all add: retry_failures_0 retry_failures_Suc_front successes_def)

lemma upserted_retry_failures: "upserted (retry_failures vo b n k) = []"
  by (induction k arbitrary: n) (simp_all add: retry_failures_0 retry_failures_Suc_front upserted_def)

lemma seconds_slept_retry_failures: "seconds_slept (retry_failures vo b n k) = 5 * k"
  by (induction k arbitrary: n) (simp_all add: retry_failures_0 retry_failures_Suc_front seconds_slept_def)

lemma embed_retry_SomeD:
  assumes "embed_retry vo b w = Some (res, w1)"
  shows "\<exists>k. (\<forall>j<k. isl (vo (embed_calls w + j) b Document))
           \<and> vo (embed_calls w + k) b Document = Inr res
           \<and> w1 = w\<lparr>embed_calls := Suc (embed_calls w + k),
                    trace := trace w @ retry_failures vo b (embed_calls w) k @ [Embed_ok b Document]\<rparr>"
proof -
  from embed_retry_returns_only_if [OF assms]
  obtain k0 where k0: "\<not> isl (vo (embed_calls w + k0) b Document)" by blast
  define m where "m = (LEAST k. \<not> isl (vo (embed_calls w + k) b Document))"
  have m: "\<not> isl (vo (embed_calls w + m) b Document)"
    unfolding m_def using k0 by (rule LeastI)
  have least: "\<forall>j<m. isl (vo (embed_calls w + j) b Document)"
    unfolding m_def using not_less_Least by blast
  from m obtain res' where res': "vo (embed_calls w + m) b Document = Inr res'"
    by (cases "vo (embed_calls w + m) b Document") auto
  with least have "embed_retry vo b w =
     Some (res', w\<lparr>embed_calls := Suc (embed_calls w + m),
                  trace := trace w @ retry_failures vo b (embed_calls w) m @ [Embed_ok b Document]\<rparr>)"
    by (rule embed_retry_success [of m vo w b res'])
  with assms have "res' = res"
    and "w1 = w\<lparr>embed_calls := Suc (embed_calls w + m),
                  trace := trace w @ retry_failures vo b (embed_calls w) m @ [Embed_ok b Document]\<rparr>"
    by simp_all
  with least res' show ?thesis by blast
qed

lemma embed_retry_effect:
  assumes "embed_retry vo b w = Some (res, w1)"
  shows "successes (trace w1) = successes (trace w) @ [Embed_ok b Document]"
    and "upserted (trace w1) = upserted (trace w)"
    and "upsert_calls w1 = upsert_calls w"
proof -
  from embed_retry_SomeD [OF assms] obtain k where
    w1: "w1 = w\<lparr>embed_calls := Suc (embed_calls w + k),
                    trace := trace w @ retry_failures vo b (embed_calls w) k @ [Embed_ok b Document]\<rparr>"
    by blast
  show "successes (trace w1) = successes (trace w) @ [Embed_ok b Document]"
    by (simp add: w1 successes_append successes_retry_failures) (simp add: successes_def)
  show "upserted (trace w1) = upserted (trace w)"
    by (simp add: w1 upserted_append upserted_retry_failures) (simp add: upserted_def)
  show "upsert_calls w1 = upsert_calls w"
    by (simp add: w1)
qed

lemma upload_loop_Cons_cases:
  assumes "upload_loop vo ups ds (i # rest) w = Some (r, w')"
  obtains res w1 e where "embed_retry vo (batch_at ds i) w = Some (res, w1)"
      and "ups (upsert_calls w1) (to_upsert ds i res) = Inl e"
      and "r = Inl e"
      and "w' = w1\<lparr>upsert_calls := Suc (upsert_calls w1),
                     trace := trace w1 @ [Upsert_failed (to_upsert ds i res) e]\<rparr>"
  | res w1 u where "embed_retry vo (batch_at ds i) w = Some (res, w1)"
      and "ups (upsert_calls w1) (to_upsert ds i res) = Inr u"
      and "upload_loop vo ups ds rest
             (w1\<lparr>upsert_calls := Suc (upsert_calls w1),
                 trace := trace w1 @ [Upsert_ok (to_upsert ds i res)]\<rparr>) = Some (r, w')"
proof -
  from assms obtain res w1 where r: "embed_retry vo (batch_at ds i) w = Some (res, w1)"
    by (auto simp: Let_def batch_at_def split: option.splits)
  show thesis
  proof (cases "ups (upsert_calls w1) (to_upsert ds i res)")
    case (Inl e)
    with assms r have "r = Inl e"
      and "w' = w1\<lparr>upsert_calls := Suc (upsert_calls w1),
                     trace := trace w1 @ [Upsert_failed (to_upsert ds i res) e]\<rparr>"
      by (simp_all add: Let_def batch_at_def)
    with r Inl show thesis by (rule that(1))
  next
    case (Inr u)
    with assms r have "upload_loop vo ups ds rest
             (w1\<lparr>upsert_calls := Suc (upsert_calls w1),
                 trace := trace w1 @ [Upsert_ok (to_upsert ds i res)]\<rparr>) = Some (r, w')"
      by (simp add: Let_def batch_at_def)
    with r Inr show thesis by (rule that(2))
  qed
qed

lemma upload_loop_upserted:
  "upload_loop vo ups ds starts w = Some (r, w') \<Longrightarrow>
   \<exists>ress. length ress \<le> length starts \<and>
     upserted (trace w') = upserted (trace w) @
       map (\<lambda>(i, res). to_upsert ds i res) (zip starts ress)"
proof (induction starts arbitrary: w)
  case Nil
  then show ?case by (intro exI [of _ "[]"]) simp
next
  case (Cons i rest)
  from Cons.prems show ?case
  proof (cases rule: upload_loop_Cons_cases)
    case (1 res w1 e)
    have "upserted (trace w') = upserted (trace w) @
       map (\<lambda>(i, res). to_upsert ds i res) (zip (i # rest) [res])"
      using embed_retry_effect(2) [OF 1(1)]
      by (simp add: 1(4) upserted_append) (simp add: upserted_def)
    moreover have "length [res] \<le> length (i # rest)" by simp
    ultimately show ?thesis by blast
  next
    case (2 res w1 u)
    define w2 where "w2 = w1\<lparr>upsert_calls := Suc (upsert_calls w1),
                 trace := trace w1 @ [Upsert_ok (to_upsert ds i res)]\<rparr>"
    from 2(3) have "upload_loop vo ups ds rest w2 = Some (r, w')"
      by (simp add: w2_def)
    from Cons.IH [OF this] obtain ress where len: "length ress \<le> length rest"
      and tr: "upserted (trace w') = upserted (trace w2) @
         map (\<lambda>(i, res). to_upsert ds i res) (zip rest ress)"
      by blast
    have "upserted (trace w2) = upserted (trace w) @ [to_upsert ds i res]"
      using embed_retry_effect(2) [OF 2(1)]
      by (simp add: w2_def upserted_append) (simp add: upserted_def)
    with tr len have "length (res # ress) \<le> length (i # rest) \<and>
      upserted (trace w') = upserted (trace w) @
         map (\<lambda>(i, res). to_upsert ds i res) (zip (i # rest) (res # ress))"
      by simp
    then show ?thesis by blast
  qed
qed

lemma upload_loop_returns:
  assumes vo: "\<forall>n b. \<exists>k. \<not> isl (vo (n + k) b Document)"
    and ups: "\<forall>n vs. \<not> isl (ups n vs)"
  shows "\<exists>w'. upload_loop vo ups ds starts w = Some (Inr (), w')"
proof (induction starts arbitrary: w)
  case Nil
  show ?case by simp
next
  case (Cons i rest)
  from vo obtain k where "\<not> isl (vo (embed_calls w + k) (batch_at ds i) Document)" by blast
  from embed_retry_returns_if [of vo w k "batch_at ds i", OF this] obtain res w1
    where r: "embed_retry vo (batch_at ds i) w = Some (res, w1)" by force
  from ups obtain u where u: "ups (upsert_calls w1) (to_upsert ds i res) = Inr u"
    by (metis isl_def sum.exhaust_sel sum.collapse(2))
  from Cons.IH obtain w' where "upload_loop vo ups ds rest
      (w1\<lparr>upsert_calls := Suc (upsert_calls w1),
                 trace := trace w1 @ [Upsert_ok (to_upsert ds i res)]\<rparr>) = Some (Inr (), w')"
    by blast
  with r u show ?case
    by (simp add: Let_def batch_at_def)
qed

section \<open>Identifiers and triples\<close>

lemma digit_value_digit_char: "d < 10 \<Longrightarrow> digit_value (digit_char d) = d"
proof -
  assume "d < 10"
  then have "d \<in> {0, 1, 2, 3, 4, 5, 6, 7, 8, 9}" by auto
  then show ?thesis
    by (auto simp: digit_value_def digit_char_def)
qed

lemma decimal_value_str_nat: "decimal_value (str_nat n) = n"
proof (induction n rule: str_nat.induct)
  case (1 n)
  show ?case
  proof (cases "n < 10")
    case True
    then show ?thesis
      by (subst str_nat.simps) (simp add: decimal_value_def digit_value_digit_char)
  next
    case False
    with 1 have IH: "decimal_value (str_nat (n div 10)) = n div 10" by simp
    have "decimal_value (str_nat n) = 10 * decimal_value (str_nat (n div 10)) + digit_value (digit_char (n mod 10))"
      using False by (subst str_nat.simps) (simp add: decimal_value_def)
    then show ?thesis
      by (simp add: IH digit_value_digit_char)
  qed
qed

lemma str_nat_inj: "str_nat m = str_nat n \<Longrightarrow> m = n"
  by (metis decimal_value_str_nat)

lemma description_id_inj: "description_id m = description_id n \<Longrightarrow> m = n"
  by (simp add: description_id_def str_nat_inj)

lemma to_upsert_eq:
  "to_upsert ds i res =
     zip (map description_id [i..<min (length ds) (i + batch_size)])
       (zip res (map (\<lambda>d. [''description'' \<mapsto> d]) (batch_at ds i)))"
  by (simp add: to_upsert_def Let_def batch_at_def)

lemma length_batch_at: "length (batch_at ds i) = min (length ds) (i + batch_size) - i"
  by (simp add: batch_at_def py_slice_def)

lemma nth_batch_at:
  assumes "j < length (batch_at ds i)"
  shows "batch_at ds i ! j = ds ! (i + j)"
proof -
  from assms have "j < min (length ds) (i + batch_size) - i"
    by (simp add: batch_at_def py_slice_def)
  then have "i + j < min (length ds) (i + batch_size)"
    by arith
  then show ?thesis
    by (simp add: batch_at_def py_slice_def)
qed

lemma length_to_upsert:
  "length (to_upsert ds i res) = min (length (batch_at ds i)) (length res)"
  by (simp add: to_upsert_eq length_batch_at)

lemma nth_to_upsert:
  assumes "j < length (to_upsert ds i res)"
  shows "to_upsert ds i res ! j =
    (''description_'' @ str_nat (i + j), res ! j, [''description'' \<mapsto> ds ! (i + j)])"
proof -
  from assms have j: "j < length (batch_at ds i)" and r: "j < length res"
    by (simp_all add: length_to_upsert)
  then have "j < min (length ds) (i + batch_size) - i"
    by (simp add: length_batch_at)
  then have "i + j < min (length ds) (i + batch_size)"
    by arith
  then have "[i..<min (length ds) (i + batch_size)] ! j = i + j"
    by (rule nth_upt)
  with j r show ?thesis
    by (simp add: to_upsert_eq nth_batch_at description_id_def length_batch_at)
qed

lemma ids_to_upsert:
  "map fst (to_upsert ds i res) =
     map description_id (take (length res) [i..<min (length ds) (i + batch_size)])"
proof -
  have "map fst (to_upsert ds i res) =
     take (min (length res) (length (batch_at ds i)))
       (map description_id [i..<min (length ds) (i + batch_size)])"
    unfolding to_upsert_eq
    by (simp add: map_fst_zip_take length_batch_at min_def)
  also have "\<dots> = take (length res) (map description_id [i..<min (length ds) (i + batch_size)])"
    by (simp add: length_batch_at min_def)
  finally show ?thesis by (simp add: take_map)
qed

lemma py_range_multiple:
  "i \<in> set (py_range s n step) \<Longrightarrow> \<exists>q. i = s + q * step"
proof (induction s n step rule: py_range.induct)
  case (1 start stop step)
  show ?case
  proof (cases "step = 0 \<or> stop \<le> start")
    case True
    with 1(2) show ?thesis by (simp add: py_range.simps)
  next
    case False
    with 1(2) have "i = start \<or> i \<in> set (py_range (start + step) stop step)"
      by (subst (asm) py_range.simps) simp
    then show ?thesis
    proof
      assume "i = start"
      then have "i = start + 0 * step" by simp
      then show ?thesis by blast
    next
      assume "i \<in> set (py_range (start + step) stop step)"
      with 1(1) False obtain q where "i = start + step + q * step" by blast
      then have "i = start + Suc q * step" by simp
      then show ?thesis by blast
    qed
  qed
qed

lemma batch_starts_apart:
  assumes "i \<in> set (py_range 0 n batch_size)" and "i' \<in> set (py_range 0 n batch_size)"
    and "i < i'"
  shows "i + batch_size \<le> i'"
proof -
  from py_range_multiple [OF assms(1)] obtain q where q: "i = q * batch_size" by auto
  from py_range_multiple [OF assms(2)] obtain q' where q': "i' = q' * batch_size" by auto
  from assms(3) q q' have "q < q'"
    by (metis mult_less_cancel2)
  then have "Suc q \<le> q'" by simp
  then have "Suc q * batch_size \<le> q' * batch_size"
    by (rule mult_le_mono1)
  with q q' show ?thesis by simp
qed

lemma batch_ranges_disjoint:
  assumes "i \<in> set (py_range 0 n batch_size)" and "i' \<in> set (py_range 0 n batch_size)"
    and "i \<noteq> i'"
  shows "set [i..<min n (i + batch_size)] \<inter> set [i'..<min n (i' + batch_size)] = {}"
proof -
  from assms(3) consider "i < i'" | "i' < i" by arith
  then show ?thesis
  proof cases
    case 1
    from batch_starts_apart [OF assms(1,2) 1] show ?thesis by auto
  next
    case 2
    from batch_starts_apart [OF assms(2,1) 2] show ?thesis by auto
  qed
qed

lemma uploaded_indices_sorted:
  "sorted_wrt (<) (concat (map (\<lambda>(i, res). take (length res) [i..<min n (i + step)])
       (zip (py_range s n step) ress)))
   \<and> (\<forall>k \<in> set (concat (map (\<lambda>(i, res). take (length res) [i..<min n (i + step)])
       (zip (py_range s n step) ress))). s \<le> k)"
proof (induction s n step arbitrary: ress rule: py_range.induct)
  case (1 start stop step)
  show ?case
  proof (cases "step = 0 \<or> stop \<le> start")
    case True
    then show ?thesis by (simp add: py_range.simps)
  next
    case False
    show ?thesis
    proof (cases ress)
      case Nil
      then show ?thesis by simp
    next
      case (Cons res rest)
      let ?tl = "concat (map (\<lambda>(i, res). take (length res) [i..<min stop (i + step)])
         (zip (py_range (start + step) stop step) rest))"
      let ?hd = "take (length res) [start..<min stop (start + step)]"
      from 1 [OF False, of rest] have srt: "sorted_wrt (<) ?tl"
        and lb: "\<forall>k \<in> set ?tl. start + step \<le> k" by simp_all
      have unfold: "concat (map (\<lambda>(i, res). take (length res) [i..<min stop (i + step)])
           (zip (py_range start stop step) ress)) = ?hd @ ?tl"
        using False Cons by (subst py_range.simps) simp
      have hd_sorted: "sorted_wrt (<) ?hd"
        by (rule sorted_wrt_take) simp
      have hd_bounds: "\<forall>k \<in> set ?hd. start \<le> k \<and> k < start + step"
        by (auto dest!: in_set_takeD)
      have cross: "\<forall>x \<in> set ?hd. \<forall>y \<in> set ?tl. x < y"
      proof (intro ballI)
        fix x y assume "x \<in> set ?hd" and "y \<in> set ?tl"
        with hd_bounds lb have "x < start + step" and "start + step \<le> y" by blast+
        then show "x < y" by arith
      qed
      have "sorted_wrt (<) (?hd @ ?tl)"
        unfolding sorted_wrt_append using srt hd_sorted cross by blast
      moreover have "\<forall>k \<in> set (?hd @ ?tl). start \<le> k"
      proof
        fix k assume "k \<in> set (?hd @ ?tl)"
        then consider "k \<in> set ?hd" | "k \<in> set ?tl" by auto
        then show "start \<le> k"
        proof cases
          case 1
          with hd_bounds show ?thesis by blast
        next
          case 2
          with lb have "start + step \<le> k" by blast
          then show ?thesis by arith
        qed
      qed
      ultimately show ?thesis
        unfolding unfold by blast
    qed
  qed
qed

lemma distinct_sorted_wrt_less: "sorted_wrt (<) (xs :: nat list) \<Longrightarrow> distinct xs"
  by (induction xs) auto

lemma upload_ids_as_indices:
  assumes "upserted tr = map (\<lambda>(i, res). to_upsert ds i res) (zip starts ress)"
  shows "upserted_ids tr = map description_id
     (concat (map (\<lambda>(i, res). take (length res) [i..<min (length ds) (i + batch_size)])
        (zip starts ress)))"
proof -
  have "upserted_ids tr = concat (map (map fst) (upserted tr))"
    by (simp add: upserted_ids_def map_concat)
  also have "\<dots> = concat (map (\<lambda>(i, res). map fst (to_upsert ds i res)) (zip starts ress))"
    by (simp add: assms comp_def case_prod_unfold)
  also have "\<dots> = concat (map (\<lambda>(i, res). map description_id
        (take (length res) [i..<min (length ds) (i + batch_size)])) (zip starts ress))"
    by (simp add: ids_to_upsert)
  also have "\<dots> = map description_id
     (concat (map (\<lambda>(i, res). take (length res) [i..<min (length ds) (i + batch_size)])
        (zip starts ress)))"
    by (simp add: map_concat comp_def case_prod_unfold)
  finally show ?thesis .
qed

lemma upload_ids_distinct:
  assumes "upload vo ups ds w = Some (r, w')" and "upserted (trace w) = []"
  shows "distinct (upserted_ids (trace w'))"
proof -
  from assms(1) have "upload_loop vo ups ds (py_range 0 (length ds) batch_size) w = Some (r, w')"
    by (simp add: upload_def)
  from upload_loop_upserted [OF this] assms(2) obtain ress where
    u: "upserted (trace w') = map (\<lambda>(i, res). to_upsert ds i res)
          (zip (py_range 0 (length ds) batch_size) ress)"
    by auto
  let ?ks = "concat (map (\<lambda>(i, res). take (length res) [i..<min (length ds) (i + batch_size)])
        (zip (py_range 0 (length ds) batch_size) ress))"
  have "sorted_wrt (<) ?ks"
    using uploaded_indices_sorted [of "length ds" batch_size 0 ress] by blast
  then have "distinct ?ks" by (rule distinct_sorted_wrt_less)
  moreover have "inj_on description_id (set ?ks)"
    by (rule inj_onI) (rule description_id_inj)
  ultimately have "distinct (map description_id ?ks)"
    by (simp add: distinct_map)
  then show ?thesis
    by (simp only: upload_ids_as_indices [OF u])
qed

lemma upload_triples_positional:
  assumes "upload vo ups ds w = Some (r, w')" and "upserted (trace w) = []"
    and "t \<in> set (concat (upserted (trace w')))"
  shows "\<exists>k<length ds. fst t = description_id k \<and> snd (snd t) = [''description'' \<mapsto> ds ! k]"
proof -
  from assms(1) have "upload_loop vo ups ds (py_range 0 (length ds) batch_size) w = Some (r, w')"
    by (simp add: upload_def)
  from upload_loop_upserted [OF this] assms(2) obtain ress where
    u: "upserted (trace w') = map (\<lambda>(i, res). to_upsert ds i res)
          (zip (py_range 0 (length ds) batch_size) ress)"
    by auto
  with assms(3) obtain i res where "t \<in> set (to_upsert ds i res)"
    by auto
  then obtain j where j: "j < length (to_upsert ds i res)" and t: "t = to_upsert ds i res ! j"
    by (auto simp: in_set_conv_nth)
  from j have "j < length (batch_at ds i)" by (simp add: length_to_upsert)
  then have "j < min (length ds) (i + batch_size) - i" by (simp add: length_batch_at)
  then have "i + j < length ds" by arith
  moreover from t nth_to_upsert [OF j]
  have "fst t = description_id (i + j)" and "snd (snd t) = [''description'' \<mapsto> ds ! (i + j)]"
    by (simp_all add: description_id_def)
  ultimately show ?thesis by blast
qed

section \<open>The requests of a run, batch by batch\<close>

lemma first_call_Suc: "first_call n0 (n # ns) (Suc j) = first_call (Suc n) ns j"
  by (cases j) (simp_all add: first_call_def)

lemma first_answer_Suc:
  "first_answer vo ds (i # starts) n0 (n # ns) (res # ress) (Suc j)
     = first_answer vo ds starts (Suc n) ns ress j"
  by (simp add: first_answer_def first_call_Suc)

lemma batch_events_Suc:
  "batch_events vo ds (i # starts) n0 (n # ns) (res # ress) (Suc j)
     = batch_events vo ds starts (Suc n) ns ress j"
  by (simp add: batch_events_def first_call_Suc)

lemma embed_retry_first_answer:
  assumes "embed_retry vo (batch_at ds i) w = Some (res, w1)"
  obtains n where "first_answer vo ds (i # starts) (embed_calls w) (n # ns) (res # ress) 0"
    and "embed_calls w1 = Suc n" and "upsert_calls w1 = upsert_calls w"
    and "trace w1 = trace w @ retry_failures vo (batch_at ds i) (embed_calls w) (n - embed_calls w)
           @ [Embed_ok (batch_at ds i) Document]"
proof -
  from embed_retry_SomeD [OF assms] obtain k where
    fails: "\<forall>j<k. isl (vo (embed_calls w + j) (batch_at ds i) Document)"
    and ok: "vo (embed_calls w + k) (batch_at ds i) Document = Inr res"
    and w1: "w1 = w\<lparr>embed_calls := Suc (embed_calls w + k),
                    trace := trace w @ retry_failures vo (batch_at ds i) (embed_calls w) k
                      @ [Embed_ok (batch_at ds i) Document]\<rparr>"
    by blast
  have before: "\<forall>m. embed_calls w \<le> m \<and> m < embed_calls w + k
      \<longrightarrow> isl (vo m (batch_at ds i) Document)"
  proof (intro allI impI)
    fix m assume m: "embed_calls w \<le> m \<and> m < embed_calls w + k"
    then have "m - embed_calls w < k" by arith
    with fails have "isl (vo (embed_calls w + (m - embed_calls w)) (batch_at ds i) Document)"
      by blast
    with m show "isl (vo m (batch_at ds i) Document)" by simp
  qed
  have "first_answer vo ds (i # starts) (embed_calls w) ((embed_calls w + k) # ns) (res # ress) 0"
    using before ok by (simp add: first_answer_def first_call_def)
  moreover have "embed_calls w1 = Suc (embed_calls w + k)" by (simp add: w1)
  moreover have "upsert_calls w1 = upsert_calls w" by (simp add: w1)
  moreover have "trace w1 = trace w @ retry_failures vo (batch_at ds i) (embed_calls w)
           ((embed_calls w + k) - embed_calls w) @ [Embed_ok (batch_at ds i) Document]"
    by (simp add: w1)
  ultimately show thesis by (rule that)
qed

lemma upt_Suc_shift: "[0..<Suc n] = 0 # map Suc [0..<n]"
  by (simp add: upt_conv_Cons map_Suc_upt del: upt_Suc)

lemma upload_loop_complete:
  "upload_loop vo ups ds starts w = Some (Inr (), w') \<Longrightarrow>
   \<exists>ns ress. length ns = length starts \<and> length ress = length starts
     \<and> (\<forall>j<length starts. first_answer vo ds starts (embed_calls w) ns ress j
            \<and> ups (upsert_calls w + j) (to_upsert ds (starts ! j) (ress ! j)) = Inr ())
     \<and> trace w' = trace w
          @ concat (map (batch_events vo ds starts (embed_calls w) ns ress) [0..<length starts])
     \<and> embed_calls w' = first_call (embed_calls w) ns (length starts)
     \<and> upsert_calls w' = upsert_calls w + length starts"
proof (induction starts arbitrary: w)
  case Nil
  then show ?case by (simp add: first_call_def)
next
  case (Cons i rest)
  from Cons.prems show ?case
  proof (cases rule: upload_loop_Cons_cases)
    case (1 res w1 e)
    then show ?thesis by simp
  next
    case (2 res w1 u)
    define w2 where "w2 = w1\<lparr>upsert_calls := Suc (upsert_calls w1),
                 trace := trace w1 @ [Upsert_ok (to_upsert ds i res)]\<rparr>"
    from 2(3) have "upload_loop vo ups ds rest w2 = Some (Inr (), w')"
      by (simp add: w2_def)
    from Cons.IH [OF this] obtain ns ress where
      ln: "length ns = length rest" and lr: "length ress = length rest"
      and each: "\<forall>j<length rest. first_answer vo ds rest (embed_calls w2) ns ress j
            \<and> ups (upsert_calls w2 + j) (to_upsert ds (rest ! j) (ress ! j)) = Inr ()"
      and tr: "trace w' = trace w2
          @ concat (map (batch_events vo ds rest (embed_calls w2) ns ress) [0..<length rest])"
      and ec: "embed_calls w' = first_call (embed_calls w2) ns (length rest)"
      and uc: "upsert_calls w' = upsert_calls w2 + length rest"
      by blast
    from 2(1) obtain n where
      fa: "first_answer vo ds (i # rest) (embed_calls w) (n # ns) (res # ress) 0"
      and e1: "embed_calls w1 = Suc n" and u1: "upsert_calls w1 = upsert_calls w"
      and t1: "trace w1 = trace w @ retry_failures vo (batch_at ds i) (embed_calls w)
           (n - embed_calls w) @ [Embed_ok (batch_at ds i) Document]"
      by (rule embed_retry_first_answer)
    have e2: "embed_calls w2 = Suc n" and u2: "upsert_calls w2 = Suc (upsert_calls w)"
      by (simp_all add: w2_def e1 u1)
    have each': "\<forall>j<length (i # rest).
        first_answer vo ds (i # rest) (embed_calls w) (n # ns) (res # ress) j
        \<and> ups (upsert_calls w + j) (to_upsert ds ((i # rest) ! j) ((res # ress) ! j)) = Inr ()"
    proof (intro allI impI)
      fix j assume j: "j < length (i # rest)"
      show "first_answer vo ds (i # rest) (embed_calls w) (n # ns) (res # ress) j
        \<and> ups (upsert_calls w + j) (to_upsert ds ((i # rest) ! j) ((res # ress) ! j)) = Inr ()"
      proof (cases j)
        case 0
        with fa 2(2) u1 show ?thesis by simp
      next
        case (Suc j')
        with j have "j' < length rest" by simp
        with each have "first_answer vo ds rest (embed_calls w2) ns ress j'
            \<and> ups (upsert_calls w2 + j') (to_upsert ds (rest ! j') (ress ! j')) = Inr ()"
          by blast
        then show ?thesis
          by (simp add: Suc first_answer_Suc e2 u2)
      qed
    qed
    have head: "batch_events vo ds (i # rest) (embed_calls w) (n # ns) (res # ress) 0
        = retry_failures vo (batch_at ds i) (embed_calls w) (n - embed_calls w)
          @ [Embed_ok (batch_at ds i) Document, Upsert_ok (to_upsert ds i res)]"
      by (simp add: batch_events_def first_call_def)
    have tail: "map (batch_events vo ds (i # rest) (embed_calls w) (n # ns) (res # ress))
          (map Suc [0..<length rest])
        = map (batch_events vo ds rest (embed_calls w2) ns ress) [0..<length rest]"
      by (simp add: batch_events_Suc e2)
    have tr': "trace w' = trace w
          @ concat (map (batch_events vo ds (i # rest) (embed_calls w) (n # ns) (res # ress))
              [0..<length (i # rest)])"
      unfolding length_Cons upt_Suc_shift list.map concat.simps head tail
      by (simp add: tr w2_def t1)
    have ec': "embed_calls w' = first_call (embed_calls w) (n # ns) (length (i # rest))"
      by (simp add: ec first_call_Suc e2)
    have uc': "upsert_calls w' = upsert_calls w + length (i # rest)"
      by (simp add: uc u2)
    have "length (n # ns) = length (i # rest) \<and> length (res # ress) = length (i # rest)"
      by (simp add: ln lr)
    with each' tr' ec' uc' show ?thesis by blast
  qed
qed

lemma upload_loop_any:
  "upload_loop vo ups ds starts w = Some (r, w') \<Longrightarrow>
   \<exists>ns ress. length ns = length ress \<and> length ress \<le> length starts
     \<and> (r = Inr () \<longrightarrow> length ress = length starts)
     \<and> (\<forall>e. r = Inl e \<longrightarrow> ress \<noteq> []
            \<and> ups (upsert_calls w + (length ress - 1))
                 (to_upsert ds (starts ! (length ress - 1)) (ress ! (length ress - 1))) = Inl e)
     \<and> (\<forall>j<length ress. first_answer vo ds starts (embed_calls w) ns ress j)
     \<and> upserted (trace w') = upserted (trace w)
          @ map (\<lambda>j. to_upsert ds (starts ! j) (ress ! j)) [0..<length ress]"
proof (induction starts arbitrary: w)
  case Nil
  then have "r = Inr ()" and "w' = w" by simp_all
  then have "length ([] :: nat list) = length ([] :: 'a list list)
     \<and> length ([] :: 'a list list) \<le> length ([] :: nat list)
     \<and> (r = Inr () \<longrightarrow> length ([] :: 'a list list) = length ([] :: nat list))
     \<and> (\<forall>e. r = Inl e \<longrightarrow> ([] :: 'a list list) \<noteq> []
            \<and> ups (upsert_calls w + (length ([] :: 'a list list) - 1))
                 (to_upsert ds ([] ! (length ([] :: 'a list list) - 1))
                    ([] ! (length ([] :: 'a list list) - 1))) = Inl e)
     \<and> (\<forall>j<length ([] :: 'a list list). first_answer vo ds [] (embed_calls w) [] [] j)
     \<and> upserted (trace w') = upserted (trace w)
          @ map (\<lambda>j. to_upsert ds ([] ! j) ([] ! j)) [0..<length ([] :: 'a list list)]"
    by simp
  then show ?case by blast
next
  case (Cons i rest)
  from Cons.prems show ?case
  proof (cases rule: upload_loop_Cons_cases)
    case (1 res w1 e)
    from 1(1) obtain n where
      fa: "first_answer vo ds (i # rest) (embed_calls w) [n] [res] 0"
      and u1: "upsert_calls w1 = upsert_calls w"
      by (rule embed_retry_first_answer)
    have up: "upserted (trace w') = upserted (trace w) @ [to_upsert ds i res]"
      using embed_retry_effect(2) [OF 1(1)]
      by (simp add: 1(4) upserted_append) (simp add: upserted_def)
    have "length [n] = length [res] \<and> length [res] \<le> length (i # rest)
     \<and> (r = Inr () \<longrightarrow> length [res] = length (i # rest))
     \<and> (\<forall>e. r = Inl e \<longrightarrow> [res] \<noteq> []
            \<and> ups (upsert_calls w + (length [res] - 1))
                 (to_upsert ds ((i # rest) ! (length [res] - 1)) ([res] ! (length [res] - 1))) = Inl e)
     \<and> (\<forall>j<length [res]. first_answer vo ds (i # rest) (embed_calls w) [n] [res] j)
     \<and> upserted (trace w') = upserted (trace w)
          @ map (\<lambda>j. to_upsert ds ((i # rest) ! j) ([res] ! j)) [0..<length [res]]"
      using fa up 1(2,3) u1 by simp
    then show ?thesis by blast
  next
    case (2 res w1 u)
    define w2 where "w2 = w1\<lparr>upsert_calls := Suc (upsert_calls w1),
                 trace := trace w1 @ [Upsert_ok (to_upsert ds i res)]\<rparr>"
    from 2(3) have "upload_loop vo ups ds rest w2 = Some (r, w')"
      by (simp add: w2_def)
    from Cons.IH [OF this] obtain ns ress where
      ln: "length ns = length ress" and lr: "length ress \<le> length rest"
      and full: "r = Inr () \<longrightarrow> length ress = length rest"
      and failed: "\<forall>e. r = Inl e \<longrightarrow> ress \<noteq> []
            \<and> ups (upsert_calls w2 + (length ress - 1))
                 (to_upsert ds (rest ! (length ress - 1)) (ress ! (length ress - 1))) = Inl e"
      and each: "\<forall>j<length ress. first_answer vo ds rest (embed_calls w2) ns ress j"
      and up: "upserted (trace w') = upserted (trace w2)
          @ map (\<lambda>j. to_upsert ds (rest ! j) (ress ! j)) [0..<length ress]"
      by blast
    from 2(1) obtain n where
      fa: "first_answer vo ds (i # rest) (embed_calls w) (n # ns) (res # ress) 0"
      and e1: "embed_calls w1 = Suc n" and u1: "upsert_calls w1 = upsert_calls w"
      by (rule embed_retry_first_answer)
    have e2: "embed_calls w2 = Suc n" and u2: "upsert_calls w2 = Suc (upsert_calls w)"
      by (simp_all add: w2_def e1 u1)
    have each': "\<forall>j<length (res # ress).
        first_answer vo ds (i # rest) (embed_calls w) (n # ns) (res # ress) j"
    proof (intro allI impI)
      fix j assume j: "j < length (res # ress)"
      show "first_answer vo ds (i # rest) (embed_calls w) (n # ns) (res # ress) j"
      proof (cases j)
        case 0
        with fa show ?thesis by simp
      next
        case (Suc j')
        with j have "j' < length ress" by simp
        with each have "first_answer vo ds rest (embed_calls w2) ns ress j'" by blast
        then show ?thesis by (simp add: Suc first_answer_Suc e2)
      qed
    qed
    have failed': "\<forall>e. r = Inl e \<longrightarrow> res # ress \<noteq> []
            \<and> ups (upsert_calls w + (length (res # ress) - 1))
                 (to_upsert ds ((i # rest) ! (length (res # ress) - 1))
                    ((res # ress) ! (length (res # ress) - 1))) = Inl e"
    proof (intro allI impI)
      fix e assume "r = Inl e"
      with failed have ne: "ress \<noteq> []"
        and f: "ups (upsert_calls w2 + (length ress - 1))
                 (to_upsert ds (rest ! (length ress - 1)) (ress ! (length ress - 1))) = Inl e"
        by blast+
      from ne obtain k where k: "length ress = Suc k" by (cases ress) auto
      with f show "res # ress \<noteq> []
            \<and> ups (upsert_calls w + (length (res # ress) - 1))
                 (to_upsert ds ((i # rest) ! (length (res # ress) - 1))
                    ((res # ress) ! (length (res # ress) - 1))) = Inl e"
        by (simp add: u2)
    qed
    have w2up: "upserted (trace w2) = upserted (trace w) @ [to_upsert ds i res]"
      using embed_retry_effect(2) [OF 2(1)]
      by (simp add: w2_def upserted_append) (simp add: upserted_def)
    have tail: "map (\<lambda>j. to_upsert ds ((i # rest) ! j) ((res # ress) ! j)) (map Suc [0..<length ress])
        = map (\<lambda>j. to_upsert ds (rest ! j) (ress ! j)) [0..<length ress]"
      by simp
    have up': "upserted (trace w') = upserted (trace w)
          @ map (\<lambda>j. to_upsert ds ((i # rest) ! j) ((res # ress) ! j)) [0..<length (res # ress)]"
      unfolding length_Cons upt_Suc_shift list.map tail
      by (simp add: up w2up)
    have "length (n # ns) = length (res # ress) \<and> length (res # ress) \<le> length (i # rest)
        \<and> (r = Inr () \<longrightarrow> length (res # ress) = length (i # rest))"
      using ln lr full by simp
    with failed' each' up' show ?thesis by blast
  qed
qed

lemma successes_concat: "successes (concat xss) = concat (map successes xss)"
  by (induction xss) (simp_all add: successes_def)

lemma upserted_concat: "upserted (concat xss) = concat (map upserted xss)"
  by (induction xss) (simp_all add: upserted_def)

lemma successes_batch_events:
  "successes (batch_events vo ds starts n0 ns ress j)
     = [Embed_ok (batch_at ds (starts ! j)) Document,
        Upsert_ok (to_upsert ds (starts ! j) (ress ! j))]"
  by (simp add: batch_events_def successes_append successes_retry_failures) (simp add: successes_def)

lemma upserted_batch_events:
  "upserted (batch_events vo ds starts n0 ns ress j) = [to_upsert ds (starts ! j) (ress ! j)]"
  by (simp add: batch_events_def upserted_append upserted_retry_failures) (simp add: upserted_def)

lemma batches_starts: "batches ds = map (batch_at ds) (batch_starts ds)"
  by (simp add: batches_def batch_starts_def)

section \<open>Claims about the upload loop\<close>

lemma less_2_cases_nat: "j < (2::nat) \<longleftrightarrow> j = 0 \<or> j = 1"
  by arith

lemma flaky_embed_recovers: "\<exists>k. \<not> isl (flaky_embed (n + k) b Document)"
proof -
  consider "n mod 3 = 0" | "n mod 3 = 1" | "n mod 3 = 2" by arith
  then show ?thesis
  proof cases
    case 1
    then have "(n + 2) mod 3 = 2" by arith
    then have "\<not> isl (flaky_embed (n + 2) b Document)"
      by (simp add: flaky_embed_def)
    then show ?thesis by blast
  next
    case 2
    then have "(n + 1) mod 3 = 2" by arith
    then have "\<not> isl (flaky_embed (n + 1) b Document)"
      by (simp add: flaky_embed_def)
    then show ?thesis by blast
  next
    case 3
    then have "\<not> isl (flaky_embed (n + 0) b Document)"
      by (simp add: flaky_embed_def)
    then show ?thesis by blast
  qed
qed

text \<open>
  C1.  The retry loop around \<^verbatim>\<open>vo.embed\<close> handles every exception alike (the model's
  \<open>Inl e\<close> for any \<open>e\<close>), sleeps 5 seconds after each failed attempt and tries again
  without bound.  It returns if and only if some attempt, counted from the current call
  number, does not raise; and when attempt \<open>k\<close> is the first that does not raise, the loop
  returns exactly its result after \<open>k\<close> failures and \<open>5 * k\<close> seconds of sleep.
\<close>

theorem embed_retry_first_success:
  "((\<exists>r. embed_retry vo b w = Some r) \<longleftrightarrow> (\<exists>k. \<not> isl (vo (embed_calls w + k) b Document)))
   \<and> (\<forall>k res. (\<forall>j<k. isl (vo (embed_calls w + j) b Document))
                \<and> vo (embed_calls w + k) b Document = Inr res
        \<longrightarrow> embed_retry vo b w =
              Some (res, w\<lparr>embed_calls := Suc (embed_calls w + k),
                           trace := trace w @ retry_failures vo b (embed_calls w) k
                                      @ [Embed_ok b Document]\<rparr>)
            \<and> seconds_slept (retry_failures vo b (embed_calls w) k) = 5 * k)"
proof (intro conjI allI impI iffI)
  assume "\<exists>r. embed_retry vo b w = Some r"
  then obtain r where "embed_retry vo b w = Some r" ..
  then show "\<exists>k. \<not> isl (vo (embed_calls w + k) b Document)"
    by (rule embed_retry_returns_only_if)
next
  assume "\<exists>k. \<not> isl (vo (embed_calls w + k) b Document)"
  then obtain k where "\<not> isl (vo (embed_calls w + k) b Document)" ..
  then show "\<exists>r. embed_retry vo b w = Some r"
    by (rule embed_retry_returns_if [of vo w k b])
next
  fix k res
  assume "(\<forall>j<k. isl (vo (embed_calls w + j) b Document))
                \<and> vo (embed_calls w + k) b Document = Inr res"
  then show "embed_retry vo b w =
              Some (res, w\<lparr>embed_calls := Suc (embed_calls w + k),
                           trace := trace w @ retry_failures vo b (embed_calls w) k
                                      @ [Embed_ok b Document]\<rparr>)"
    using embed_retry_success [of k vo w b res] by blast
next
  fix k res
  show "seconds_slept (retry_failures vo b (embed_calls w) k) = 5 * k"
    by (rule seconds_slept_retry_failures)
qed

theorem embed_retry_first_success_witness:
  "embed_retry flaky_embed [''ab''] world0 =
     Some ([2], \<lparr>embed_calls = 3, upsert_calls = 0, query_calls = 0,
                 trace = [Embed_failed [''ab''] Document RateLimitError, Sleep 5,
                          Embed_failed [''ab''] Document KeyboardInterrupt, Sleep 5,
                          Embed_ok [''ab''] Document]\<rparr>)
   \<and> seconds_slept (retry_failures flaky_embed [''ab''] 0 2) = 10"
proof -
  have fails: "\<forall>j<2. isl (flaky_embed (embed_calls (world0 :: nat world) + j) [''ab''] Document)"
    by (simp add: less_2_cases_nat flaky_embed_def world0_def)
  have ok: "flaky_embed (embed_calls (world0 :: nat world) + 2) [''ab''] Document = Inr [2]"
    by (simp add: flaky_embed_def world0_def)
  have unfold: "[0..<2] = [0, Suc 0]"
    by (simp add: upt_rec)
  from embed_retry_first_success [of flaky_embed "[''ab'']" world0] fails ok
  have "embed_retry flaky_embed [''ab''] world0 =
              Some ([2], world0\<lparr>embed_calls := Suc (embed_calls (world0 :: nat world) + 2),
                           trace := trace (world0 :: nat world)
                                      @ retry_failures flaky_embed [''ab''] (embed_calls (world0 :: nat world)) 2
                                      @ [Embed_ok [''ab''] Document]\<rparr>)
            \<and> seconds_slept (retry_failures flaky_embed [''ab''] (embed_calls (world0 :: nat world)) 2) = 5 * 2"
    by blast
  then show ?thesis
    by (simp add: world0_def retry_failures_def flaky_embed_def unfold)
qed

text \<open>
  C4.  The upload loop walks the descriptions in the slices \<open>batches\<close>: every slice has
  between 1 and 100 elements, the slices concatenate to the list, and slice \<open>j\<close> is the
  batch of the \<open>j\<close>-th value of the loop variable.  In a run that completes, the trace is
  exactly, slice by slice and in order: the failed attempts of the retry loop, each with
  its sleep, then one successful embedding request for the slice, then one upsert that
  returns.  The answer of the successful request is the first answer of the embedding
  service for the slice that does not raise, and the upsert carries the triples built
  from that answer.  So the successful requests are one embedding request and one upsert
  per slice, and the run makes no other upsert.  The run does complete when every retry
  loop meets an attempt that does not raise and no upsert raises.
\<close>

theorem upload_batches:
  "(\<forall>b \<in> set (batches ds). 1 \<le> length b \<and> length b \<le> 100)
   \<and> concat (batches ds) = ds
   \<and> batches ds = map (batch_at ds) (batch_starts ds)
   \<and> (\<forall>w'. upload vo ups ds w = Some (Inr (), w') \<longrightarrow>
        (\<exists>ns ress. length ns = length (batches ds) \<and> length ress = length (batches ds)
           \<and> (\<forall>j<length (batches ds).
                 first_call (embed_calls w) ns j \<le> ns ! j
                 \<and> (\<forall>m. first_call (embed_calls w) ns j \<le> m \<and> m < ns ! j
                        \<longrightarrow> isl (vo m (batches ds ! j) Document))
                 \<and> vo (ns ! j) (batches ds ! j) Document = Inr (ress ! j)
                 \<and> ups (upsert_calls w + j) (to_upsert ds (batch_starts ds ! j) (ress ! j))
                     = Inr ())
           \<and> trace w' = trace w
                @ concat (map (batch_events vo ds (batch_starts ds) (embed_calls w) ns ress)
                    [0..<length (batches ds)])
           \<and> successes (trace w') = successes (trace w)
                @ concat (map (\<lambda>j. [Embed_ok (batches ds ! j) Document,
                                     Upsert_ok (to_upsert ds (batch_starts ds ! j) (ress ! j))])
                    [0..<length (batches ds)])
           \<and> upserted (trace w') = upserted (trace w)
                @ map (\<lambda>j. to_upsert ds (batch_starts ds ! j) (ress ! j))
                    [0..<length (batches ds)]))
   \<and> ((\<forall>n b. \<exists>k. \<not> isl (vo (n + k) b Document)) \<and> (\<forall>n vs. \<not> isl (ups n vs)) \<longrightarrow>
        (\<exists>w'. upload vo ups ds w = Some (Inr (), w')))"
proof (intro conjI ballI allI impI)
  fix b assume "b \<in> set (batches ds)"
  then have "1 \<le> length b \<and> length b \<le> 100" by (rule batches_length)
  then show "1 \<le> length b" and "length b \<le> 100" by simp_all
next
  show "concat (batches ds) = ds" by (rule batches_concat)
next
  show "batches ds = map (batch_at ds) (batch_starts ds)" by (rule batches_starts)
next
  fix w' assume "upload vo ups ds w = Some (Inr (), w')"
  then have "upload_loop vo ups ds (batch_starts ds) w = Some (Inr (), w')"
    by (simp add: upload_def batch_starts_def)
  from upload_loop_complete [OF this] obtain ns ress where
    ln: "length ns = length (batch_starts ds)" and lr: "length ress = length (batch_starts ds)"
    and each: "\<forall>j<length (batch_starts ds).
        first_answer vo ds (batch_starts ds) (embed_calls w) ns ress j
        \<and> ups (upsert_calls w + j) (to_upsert ds (batch_starts ds ! j) (ress ! j)) = Inr ()"
    and tr: "trace w' = trace w
          @ concat (map (batch_events vo ds (batch_starts ds) (embed_calls w) ns ress)
              [0..<length (batch_starts ds)])"
    by blast
  have len: "length (batches ds) = length (batch_starts ds)"
    by (simp add: batches_starts)
  have nth: "\<And>j. j < length (batch_starts ds) \<Longrightarrow> batches ds ! j = batch_at ds (batch_starts ds ! j)"
    by (simp add: batches_starts)
  have each': "\<forall>j<length (batches ds).
                 first_call (embed_calls w) ns j \<le> ns ! j
                 \<and> (\<forall>m. first_call (embed_calls w) ns j \<le> m \<and> m < ns ! j
                        \<longrightarrow> isl (vo m (batches ds ! j) Document))
                 \<and> vo (ns ! j) (batches ds ! j) Document = Inr (ress ! j)
                 \<and> ups (upsert_calls w + j) (to_upsert ds (batch_starts ds ! j) (ress ! j))
                     = Inr ()"
  proof (intro allI impI)
    fix j assume "j < length (batches ds)"
    then have j: "j < length (batch_starts ds)" by (simp add: len)
    with each have "first_answer vo ds (batch_starts ds) (embed_calls w) ns ress j
        \<and> ups (upsert_calls w + j) (to_upsert ds (batch_starts ds ! j) (ress ! j)) = Inr ()"
      by blast
    then show "first_call (embed_calls w) ns j \<le> ns ! j
                 \<and> (\<forall>m. first_call (embed_calls w) ns j \<le> m \<and> m < ns ! j
                        \<longrightarrow> isl (vo m (batches ds ! j) Document))
                 \<and> vo (ns ! j) (batches ds ! j) Document = Inr (ress ! j)
                 \<and> ups (upsert_calls w + j) (to_upsert ds (batch_starts ds ! j) (ress ! j))
                     = Inr ()"
      by (simp add: first_answer_def nth [OF j])
  qed
  have tr': "trace w' = trace w
                @ concat (map (batch_events vo ds (batch_starts ds) (embed_calls w) ns ress)
                    [0..<length (batches ds)])"
    by (simp add: tr len)
  have su: "successes (trace w') = successes (trace w)
                @ concat (map (\<lambda>j. [Embed_ok (batches ds ! j) Document,
                                     Upsert_ok (to_upsert ds (batch_starts ds ! j) (ress ! j))])
                    [0..<length (batches ds)])"
  proof -
    have "successes (trace w') = successes (trace w)
        @ concat (map (\<lambda>j. [Embed_ok (batch_at ds (batch_starts ds ! j)) Document,
                             Upsert_ok (to_upsert ds (batch_starts ds ! j) (ress ! j))])
            [0..<length (batch_starts ds)])"
      by (simp add: tr successes_append successes_concat comp_def successes_batch_events)
    also have "map (\<lambda>j. [Embed_ok (batch_at ds (batch_starts ds ! j)) Document,
                             Upsert_ok (to_upsert ds (batch_starts ds ! j) (ress ! j))])
            [0..<length (batch_starts ds)]
        = map (\<lambda>j. [Embed_ok (batches ds ! j) Document,
                     Upsert_ok (to_upsert ds (batch_starts ds ! j) (ress ! j))])
            [0..<length (batches ds)]"
      unfolding len by (rule map_cong) (simp_all add: nth)
    finally show ?thesis .
  qed
  have up: "upserted (trace w') = upserted (trace w)
                @ map (\<lambda>j. to_upsert ds (batch_starts ds ! j) (ress ! j))
                    [0..<length (batches ds)]"
    by (simp add: tr upserted_append upserted_concat comp_def upserted_batch_events len)
  have "length ns = length (batches ds) \<and> length ress = length (batches ds)"
    by (simp add: ln lr len)
  with each' tr' su up
  show "\<exists>ns ress. length ns = length (batches ds) \<and> length ress = length (batches ds)
           \<and> (\<forall>j<length (batches ds).
                 first_call (embed_calls w) ns j \<le> ns ! j
                 \<and> (\<forall>m. first_call (embed_calls w) ns j \<le> m \<and> m < ns ! j
                        \<longrightarrow> isl (vo m (batches ds ! j) Document))
                 \<and> vo (ns ! j) (batches ds ! j) Document = Inr (ress ! j)
                 \<and> ups (upsert_calls w + j) (to_upsert ds (batch_starts ds ! j) (ress ! j))
                     = Inr ())
           \<and> trace w' = trace w
                @ concat (map (batch_events vo ds (batch_starts ds) (embed_calls w) ns ress)
                    [0..<length (batches ds)])
           \<and> successes (trace w') = successes (trace w)
                @ concat (map (\<lambda>j. [Embed_ok (batches ds ! j) Document,
                                     Upsert_ok (to_upsert ds (batch_starts ds ! j) (ress ! j))])
                    [0..<length (batches ds)])
           \<and> upserted (trace w') = upserted (trace w)
                @ map (\<lambda>j. to_upsert ds (batch_starts ds ! j) (ress ! j))
                    [0..<length (batches ds)]"
    by blast
next
  assume "(\<forall>n b. \<exists>k. \<not> isl (vo (n + k) b Document)) \<and> (\<forall>n vs. \<not> isl (ups n vs))"
  then show "\<exists>w'. upload vo ups ds w = Some (Inr (), w')"
    unfolding upload_def using upload_loop_returns [of vo ups ds] by blast
qed

lemma upload_two_descriptions:
  "upload flaky_embed upsert_accepts [''x'', ''yz''] world0 =
     Some (Inr (),
       \<lparr>embed_calls = 3, upsert_calls = 1, query_calls = 0,
        trace = [Embed_failed [''x'', ''yz''] Document RateLimitError, Sleep 5,
                 Embed_failed [''x'', ''yz''] Document KeyboardInterrupt, Sleep 5,
                 Embed_ok [''x'', ''yz''] Document,
                 Upsert_ok [(''description_0'', 1, [''description'' \<mapsto> ''x'']),
                            (''description_1'', 2, [''description'' \<mapsto> ''yz''])]]\<rparr>)"
  by (simp add: upload_def py_range.simps batch_size_def Let_def embed_retry.simps
      flaky_embed_def world0_def to_upsert_def py_slice_def description_id_def
      str_nat.simps digit_char_def upsert_accepts_def upt_rec)

lemma batches_101:
  "batches (replicate 100 ''a'' @ [''b'']) = [replicate 100 ''a'', [''b'']]"
  by (simp add: batches_def batch_at_def py_slice_def py_range.simps batch_size_def)

lemma batch_starts_101: "batch_starts (replicate 100 ''a'' @ [''b'']) = [0, 100]"
  by (simp add: batch_starts_def py_range.simps batch_size_def)

lemma flaky_embed_first:
  assumes "lo \<le> n" and "\<forall>m. lo \<le> m \<and> m < n \<longrightarrow> isl (flaky_embed m b Document)"
    and "flaky_embed n b Document = Inr res" and "lo mod 3 = 0"
  shows "n = lo + 2 \<and> res = map length b"
proof -
  from assms(3) have n: "n mod 3 = 2" and res: "res = map length b"
    by (auto simp: flaky_embed_def split: if_splits)
  have "(lo + 2) mod 3 = 2" using assms(4) by arith
  then have "\<not> isl (flaky_embed (lo + 2) b Document)"
    by (simp add: flaky_embed_def)
  with assms(2) have "\<not> (lo \<le> lo + 2 \<and> lo + 2 < n)" by blast
  then have "n \<le> lo + 2" by simp
  with assms(1,4) n have "n = lo + 2" by arith
  with res show ?thesis by simp
qed

theorem upload_batches_witness:
  "batches (replicate 100 ''a'' @ [''b'']) = [replicate 100 ''a'', [''b'']]
   \<and> length (replicate 100 ''a'') \<le> 100 \<and> 1 \<le> length [''b'']
   \<and> concat (batches (replicate 100 ''a'' @ [''b''])) = replicate 100 ''a'' @ [''b'']
   \<and> flaky_embed 2 (replicate 100 ''a'') Document = Inr (replicate 100 1)
   \<and> flaky_embed 5 [''b''] Document = Inr [1]
   \<and> (\<exists>w'. upload flaky_embed upsert_accepts (replicate 100 ''a'' @ [''b'']) world0
               = Some (Inr (), w')
          \<and> successes (trace w') =
               [Embed_ok (replicate 100 ''a'') Document,
                Upsert_ok (to_upsert (replicate 100 ''a'' @ [''b'']) 0 (replicate 100 1)),
                Embed_ok [''b''] Document,
                Upsert_ok (to_upsert (replicate 100 ''a'' @ [''b'']) 100 [1])]
          \<and> upserted (trace w') =
               [to_upsert (replicate 100 ''a'' @ [''b'']) 0 (replicate 100 1),
                to_upsert (replicate 100 ''a'' @ [''b'']) 100 [1]])"
proof -
  let ?ds = "replicate 100 ''a'' @ [''b'']"
  note inst = upload_batches [of ?ds flaky_embed upsert_accepts world0]
  have services: "(\<forall>n b. \<exists>k. \<not> isl (flaky_embed (n + k) b Document))
      \<and> (\<forall>n vs. \<not> isl (upsert_accepts n vs))"
    by (simp add: flaky_embed_recovers upsert_accepts_def)
  have bs: "batches ?ds = [replicate 100 ''a'', [''b'']]"
    by (rule batches_101)
  from inst services obtain w' where
    run: "upload flaky_embed upsert_accepts ?ds world0 = Some (Inr (), w')"
    by blast
  from inst run have "\<exists>ns ress. length ns = length (batches ?ds) \<and> length ress = length (batches ?ds)
           \<and> (\<forall>j<length (batches ?ds).
                 first_call (embed_calls (world0 :: nat world)) ns j \<le> ns ! j
                 \<and> (\<forall>m. first_call (embed_calls (world0 :: nat world)) ns j \<le> m \<and> m < ns ! j
                        \<longrightarrow> isl (flaky_embed m (batches ?ds ! j) Document))
                 \<and> flaky_embed (ns ! j) (batches ?ds ! j) Document = Inr (ress ! j)
                 \<and> upsert_accepts (upsert_calls (world0 :: nat world) + j)
                      (to_upsert ?ds (batch_starts ?ds ! j) (ress ! j)) = Inr ())
           \<and> trace w' = trace (world0 :: nat world)
                @ concat (map (batch_events flaky_embed ?ds (batch_starts ?ds)
                     (embed_calls (world0 :: nat world)) ns ress)
                    [0..<length (batches ?ds)])
           \<and> successes (trace w') = successes (trace (world0 :: nat world))
                @ concat (map (\<lambda>j. [Embed_ok (batches ?ds ! j) Document,
                                     Upsert_ok (to_upsert ?ds (batch_starts ?ds ! j) (ress ! j))])
                    [0..<length (batches ?ds)])
           \<and> upserted (trace w') = upserted (trace (world0 :: nat world))
                @ map (\<lambda>j. to_upsert ?ds (batch_starts ?ds ! j) (ress ! j))
                    [0..<length (batches ?ds)]"
    by blast
  then obtain ns ress where
    each: "\<forall>j<length (batches ?ds).
                 first_call (embed_calls (world0 :: nat world)) ns j \<le> ns ! j
                 \<and> (\<forall>m. first_call (embed_calls (world0 :: nat world)) ns j \<le> m \<and> m < ns ! j
                        \<longrightarrow> isl (flaky_embed m (batches ?ds ! j) Document))
                 \<and> flaky_embed (ns ! j) (batches ?ds ! j) Document = Inr (ress ! j)
                 \<and> upsert_accepts (upsert_calls (world0 :: nat world) + j)
                      (to_upsert ?ds (batch_starts ?ds ! j) (ress ! j)) = Inr ()"
    and su: "successes (trace w') = successes (trace (world0 :: nat world))
                @ concat (map (\<lambda>j. [Embed_ok (batches ?ds ! j) Document,
                                     Upsert_ok (to_upsert ?ds (batch_starts ?ds ! j) (ress ! j))])
                    [0..<length (batches ?ds)])"
    and up: "upserted (trace w') = upserted (trace (world0 :: nat world))
                @ map (\<lambda>j. to_upsert ?ds (batch_starts ?ds ! j) (ress ! j))
                    [0..<length (batches ?ds)]"
    by (elim exE conjE)
  have two: "[0..<length (batches ?ds)] = [0, Suc 0]"
    unfolding bs by (simp add: upt_rec)
  from each [THEN spec, of 0] have zero: "first_call 0 ns 0 \<le> ns ! 0
      \<and> (\<forall>m. first_call 0 ns 0 \<le> m \<and> m < ns ! 0
             \<longrightarrow> isl (flaky_embed m (replicate 100 ''a'') Document))
      \<and> flaky_embed (ns ! 0) (replicate 100 ''a'') Document = Inr (ress ! 0)"
    unfolding bs by (simp add: world0_def)
  then have first: "ns ! 0 = 0 + 2 \<and> ress ! 0 = map length (replicate 100 ''a'')"
    by (intro flaky_embed_first [where lo = 0]) (simp_all add: first_call_def)
  from each [THEN spec, of "Suc 0"] have one: "first_call 0 ns (Suc 0) \<le> ns ! Suc 0
      \<and> (\<forall>m. first_call 0 ns (Suc 0) \<le> m \<and> m < ns ! Suc 0
             \<longrightarrow> isl (flaky_embed m [''b''] Document))
      \<and> flaky_embed (ns ! Suc 0) [''b''] Document = Inr (ress ! Suc 0)"
    unfolding bs by (simp add: world0_def)
  have fc: "first_call 0 ns (Suc 0) = 3"
    using first by (simp add: first_call_def)
  from one have second: "ns ! Suc 0 = 3 + 2 \<and> ress ! Suc 0 = map length [''b'']"
    unfolding fc by (intro flaky_embed_first [where lo = 3]) simp_all
  have r0: "ress ! 0 = replicate 100 1" using first by (simp add: map_replicate)
  have r1: "ress ! Suc 0 = [1]" using second by simp
  have su': "successes (trace w') =
               [Embed_ok (replicate 100 ''a'') Document,
                Upsert_ok (to_upsert ?ds 0 (replicate 100 1)),
                Embed_ok [''b''] Document,
                Upsert_ok (to_upsert ?ds 100 [1])]"
    unfolding su two by (simp add: bs batch_starts_101 r0 r1 world0_def successes_def)
  have up': "upserted (trace w') =
               [to_upsert ?ds 0 (replicate 100 1), to_upsert ?ds 100 [1]]"
    unfolding up two by (simp add: batch_starts_101 r0 r1 world0_def upserted_def)
  have n0: "ns ! 0 = 2" using first by simp
  have n1: "ns ! Suc 0 = 5" using second by simp
  from zero have "flaky_embed (ns ! 0) (replicate 100 ''a'') Document = Inr (ress ! 0)"
    by blast
  then have a1: "flaky_embed 2 (replicate 100 ''a'') Document = Inr (replicate 100 1)"
    unfolding n0 r0 .
  from one have "flaky_embed (ns ! Suc 0) [''b''] Document = Inr (ress ! Suc 0)"
    by blast
  then have a2: "flaky_embed 5 [''b''] Document = Inr [1]"
    unfolding n1 r1 .
  from inst have cc: "concat (batches ?ds) = ?ds" by blast
  from inst have "\<forall>b \<in> set (batches ?ds). 1 \<le> length b \<and> length b \<le> 100"
    by blast
  then have lens: "length (replicate 100 ''a'') \<le> 100 \<and> 1 \<le> length [''b'']"
    unfolding bs by simp
  have "\<exists>w'. upload flaky_embed upsert_accepts ?ds world0 = Some (Inr (), w')
          \<and> successes (trace w') =
               [Embed_ok (replicate 100 ''a'') Document,
                Upsert_ok (to_upsert ?ds 0 (replicate 100 1)),
                Embed_ok [''b''] Document,
                Upsert_ok (to_upsert ?ds 100 [1])]
          \<and> upserted (trace w') =
               [to_upsert ?ds 0 (replicate 100 1), to_upsert ?ds 100 [1]]"
    by (intro exI [of _ w'] conjI) (rule run, rule su', rule up')
  with bs lens cc a1 a2 show ?thesis by (intro conjI) simp_all
qed

text \<open>
  C5.  The triples of a batch that starts at index \<open>i\<close> are the positional zip of the
  ids, the embeddings of the answer and the metadata dictionaries (as long as the shorter
  of the batch and the answer): triple \<open>j\<close> is the id \<^verbatim>\<open>description_{i+j}\<close>, embedding \<open>j\<close>
  of the answer, and a dictionary whose only key \<^verbatim>\<open>description\<close> holds the source text at
  \<open>i + j\<close>.  In every run of the upload loop from a trace without upserts, whether it
  completes or an upsert raises, the lists handed to \<^verbatim>\<open>index.upsert\<close> are, batch by batch,
  the triples built from the batch start and from the first answer of the embedding
  service for that batch that does not raise: triple \<open>l\<close> of upsert \<open>j\<close> is the id of index
  \<open>i + l\<close>, embedding \<open>l\<close> of that answer and the text at \<open>i + l\<close>, where \<open>i\<close> is the start of
  batch \<open>j\<close>.  A run that completes has upserted every batch; a run that an exception
  ends has made its last upsert with that exception.
\<close>

theorem to_upsert_positional:
  "to_upsert ds i res =
     zip (map description_id [i..<min (length ds) (i + batch_size)])
       (zip res (map (\<lambda>d. [''description'' \<mapsto> d]) (batch_at ds i)))
   \<and> length (to_upsert ds i res) = min (length (batch_at ds i)) (length res)
   \<and> (\<forall>j. j < length (to_upsert ds i res) \<longrightarrow>
          to_upsert ds i res ! j =
            (''description_'' @ str_nat (i + j), res ! j, [''description'' \<mapsto> ds ! (i + j)])
          \<and> dom (snd (snd (to_upsert ds i res ! j))) = {''description''})
   \<and> (\<forall>r w'. upload vo ups ds w = Some (r, w') \<and> upserted (trace w) = [] \<longrightarrow>
        (\<exists>ns ress. length ns = length ress \<and> length ress \<le> length (batch_starts ds)
           \<and> (r = Inr () \<longrightarrow> length ress = length (batch_starts ds))
           \<and> (\<forall>e. r = Inl e \<longrightarrow> ress \<noteq> []
                  \<and> ups (upsert_calls w + (length ress - 1))
                       (to_upsert ds (batch_starts ds ! (length ress - 1))
                          (ress ! (length ress - 1))) = Inl e)
           \<and> (\<forall>j<length ress.
                 first_call (embed_calls w) ns j \<le> ns ! j
                 \<and> (\<forall>m. first_call (embed_calls w) ns j \<le> m \<and> m < ns ! j
                        \<longrightarrow> isl (vo m (batch_at ds (batch_starts ds ! j)) Document))
                 \<and> vo (ns ! j) (batch_at ds (batch_starts ds ! j)) Document = Inr (ress ! j))
           \<and> upserted (trace w')
               = map (\<lambda>j. to_upsert ds (batch_starts ds ! j) (ress ! j)) [0..<length ress]
           \<and> (\<forall>j<length ress. \<forall>l<length (upserted (trace w') ! j).
                 upserted (trace w') ! j ! l =
                   (''description_'' @ str_nat (batch_starts ds ! j + l), ress ! j ! l,
                    [''description'' \<mapsto> ds ! (batch_starts ds ! j + l)]))))"
proof (intro conjI allI impI)
  show "to_upsert ds i res =
     zip (map description_id [i..<min (length ds) (i + batch_size)])
       (zip res (map (\<lambda>d. [''description'' \<mapsto> d]) (batch_at ds i)))"
    by (rule to_upsert_eq)
next
  show "length (to_upsert ds i res) = min (length (batch_at ds i)) (length res)"
    by (rule length_to_upsert)
next
  fix j assume j: "j < length (to_upsert ds i res)"
  then show nth: "to_upsert ds i res ! j =
            (''description_'' @ str_nat (i + j), res ! j, [''description'' \<mapsto> ds ! (i + j)])"
    by (rule nth_to_upsert)
  show "dom (snd (snd (to_upsert ds i res ! j))) = {''description''}"
    by (simp add: nth)
next
  fix r w'
  assume run: "upload vo ups ds w = Some (r, w') \<and> upserted (trace w) = []"
  then have "upload_loop vo ups ds (batch_starts ds) w = Some (r, w')"
    by (simp add: upload_def batch_starts_def)
  from upload_loop_any [OF this] obtain ns ress where
    ln: "length ns = length ress" and lr: "length ress \<le> length (batch_starts ds)"
    and full: "r = Inr () \<longrightarrow> length ress = length (batch_starts ds)"
    and failed: "\<forall>e. r = Inl e \<longrightarrow> ress \<noteq> []
                  \<and> ups (upsert_calls w + (length ress - 1))
                       (to_upsert ds (batch_starts ds ! (length ress - 1))
                          (ress ! (length ress - 1))) = Inl e"
    and each: "\<forall>j<length ress. first_answer vo ds (batch_starts ds) (embed_calls w) ns ress j"
    and up: "upserted (trace w') = upserted (trace w)
          @ map (\<lambda>j. to_upsert ds (batch_starts ds ! j) (ress ! j)) [0..<length ress]"
    by blast
  have each': "\<forall>j<length ress.
                 first_call (embed_calls w) ns j \<le> ns ! j
                 \<and> (\<forall>m. first_call (embed_calls w) ns j \<le> m \<and> m < ns ! j
                        \<longrightarrow> isl (vo m (batch_at ds (batch_starts ds ! j)) Document))
                 \<and> vo (ns ! j) (batch_at ds (batch_starts ds ! j)) Document = Inr (ress ! j)"
    using each by (simp add: first_answer_def)
  have up': "upserted (trace w')
               = map (\<lambda>j. to_upsert ds (batch_starts ds ! j) (ress ! j)) [0..<length ress]"
    using up run by simp
  have triples: "\<forall>j<length ress. \<forall>l<length (upserted (trace w') ! j).
                 upserted (trace w') ! j ! l =
                   (''description_'' @ str_nat (batch_starts ds ! j + l), ress ! j ! l,
                    [''description'' \<mapsto> ds ! (batch_starts ds ! j + l)])"
  proof (intro allI impI)
    fix j l assume j: "j < length ress" and l: "l < length (upserted (trace w') ! j)"
    from j have eq: "upserted (trace w') ! j = to_upsert ds (batch_starts ds ! j) (ress ! j)"
      by (simp add: up')
    with l have "l < length (to_upsert ds (batch_starts ds ! j) (ress ! j))" by simp
    then show "upserted (trace w') ! j ! l =
                   (''description_'' @ str_nat (batch_starts ds ! j + l), ress ! j ! l,
                    [''description'' \<mapsto> ds ! (batch_starts ds ! j + l)])"
      unfolding eq by (rule nth_to_upsert)
  qed
  from ln lr full failed each' up' triples
  show "\<exists>ns ress. length ns = length ress \<and> length ress \<le> length (batch_starts ds)
           \<and> (r = Inr () \<longrightarrow> length ress = length (batch_starts ds))
           \<and> (\<forall>e. r = Inl e \<longrightarrow> ress \<noteq> []
                  \<and> ups (upsert_calls w + (length ress - 1))
                       (to_upsert ds (batch_starts ds ! (length ress - 1))
                          (ress ! (length ress - 1))) = Inl e)
           \<and> (\<forall>j<length ress.
                 first_call (embed_calls w) ns j \<le> ns ! j
                 \<and> (\<forall>m. first_call (embed_calls w) ns j \<le> m \<and> m < ns ! j
                        \<longrightarrow> isl (vo m (batch_at ds (batch_starts ds ! j)) Document))
                 \<and> vo (ns ! j) (batch_at ds (batch_starts ds ! j)) Document = Inr (ress ! j))
           \<and> upserted (trace w')
               = map (\<lambda>j. to_upsert ds (batch_starts ds ! j) (ress ! j)) [0..<length ress]
           \<and> (\<forall>j<length ress. \<forall>l<length (upserted (trace w') ! j).
                 upserted (trace w') ! j ! l =
                   (''description_'' @ str_nat (batch_starts ds ! j + l), ress ! j ! l,
                    [''description'' \<mapsto> ds ! (batch_starts ds ! j + l)]))"
    by blast
qed

theorem to_upsert_positional_witness:
  "to_upsert (replicate 100 ''a'' @ [''b'', ''c'']) 100 [7, 8 :: nat] ! 1 =
      (''description_101'', 8, [''description'' \<mapsto> ''c''])
   \<and> length (to_upsert (replicate 100 ''a'' @ [''b'', ''c'']) 100 [7, 8 :: nat]) = 2
   \<and> dom (snd (snd (to_upsert (replicate 100 ''a'' @ [''b'', ''c'']) 100 [7, 8 :: nat] ! 1)))
       = {''description''}
   \<and> flaky_embed 2 [''x'', ''yz''] Document = Inr [1, 2]
   \<and> (\<exists>w'. upload flaky_embed upsert_accepts [''x'', ''yz''] world0 = Some (Inr (), w')
          \<and> upserted (trace w') = [to_upsert [''x'', ''yz''] 0 [1, 2]]
          \<and> upserted (trace w') ! 0 ! 0 = (''description_0'', 1, [''description'' \<mapsto> ''x''])
          \<and> upserted (trace w') ! 0 ! 1 = (''description_1'', 2, [''description'' \<mapsto> ''yz'']))"
proof -
  let ?ds = "replicate 100 ''a'' @ [''b'', ''c'']"
  let ?xy = "[''x'', ''yz'']"
  let ?w = "\<lparr>embed_calls = 3, upsert_calls = 1, query_calls = 0,
        trace = [Embed_failed [''x'', ''yz''] Document RateLimitError, Sleep 5,
                 Embed_failed [''x'', ''yz''] Document KeyboardInterrupt, Sleep 5,
                 Embed_ok [''x'', ''yz''] Document,
                 Upsert_ok [(''description_0'', 1, [''description'' \<mapsto> ''x'']),
                            (''description_1'', 2, [''description'' \<mapsto> ''yz''])]]\<rparr> :: nat world"
  note inst = to_upsert_positional [where ds = ?ds and i = 100 and res = "[7, 8 :: nat]"
      and vo = flaky_embed and ups = upsert_accepts and w = world0]
  note run_inst = to_upsert_positional [where ds = ?xy and vo = flaky_embed
      and ups = upsert_accepts and w = world0 and i = 0 and res = "[]",
      THEN conjunct2, THEN conjunct2, THEN conjunct2, rule_format, of "Inr ()" ?w]
  have run: "upload flaky_embed upsert_accepts ?xy world0 = Some (Inr (), ?w)"
    by (rule upload_two_descriptions)
  have fresh: "upserted (trace (world0 :: nat world)) = []"
    by (simp add: world0_def upserted_def)
  have starts: "batch_starts ?xy = [0]"
    by (simp add: batch_starts_def py_range.simps batch_size_def)
  from run fresh have "\<exists>ns ress. length ns = length ress \<and> length ress \<le> length (batch_starts ?xy)
           \<and> ((Inr () :: py_exception + unit) = Inr () \<longrightarrow> length ress = length (batch_starts ?xy))
           \<and> (\<forall>e. (Inr () :: py_exception + unit) = Inl e \<longrightarrow> ress \<noteq> []
                  \<and> upsert_accepts (upsert_calls (world0 :: nat world) + (length ress - 1))
                       (to_upsert ?xy (batch_starts ?xy ! (length ress - 1))
                          (ress ! (length ress - 1))) = Inl e)
           \<and> (\<forall>j<length ress.
                 first_call (embed_calls (world0 :: nat world)) ns j \<le> ns ! j
                 \<and> (\<forall>m. first_call (embed_calls (world0 :: nat world)) ns j \<le> m \<and> m < ns ! j
                        \<longrightarrow> isl (flaky_embed m (batch_at ?xy (batch_starts ?xy ! j)) Document))
                 \<and> flaky_embed (ns ! j) (batch_at ?xy (batch_starts ?xy ! j)) Document
                     = Inr (ress ! j))
           \<and> upserted (trace ?w)
               = map (\<lambda>j. to_upsert ?xy (batch_starts ?xy ! j) (ress ! j)) [0..<length ress]
           \<and> (\<forall>j<length ress. \<forall>l<length (upserted (trace ?w) ! j).
                 upserted (trace ?w) ! j ! l =
                   (''description_'' @ str_nat (batch_starts ?xy ! j + l), ress ! j ! l,
                    [''description'' \<mapsto> ?xy ! (batch_starts ?xy ! j + l)]))"
    by (intro run_inst conjI)
  then obtain ns ress where
    full: "(Inr () :: py_exception + unit) = Inr () \<longrightarrow> length ress = length (batch_starts ?xy)"
    and each: "\<forall>j<length ress.
                 first_call (embed_calls (world0 :: nat world)) ns j \<le> ns ! j
                 \<and> (\<forall>m. first_call (embed_calls (world0 :: nat world)) ns j \<le> m \<and> m < ns ! j
                        \<longrightarrow> isl (flaky_embed m (batch_at ?xy (batch_starts ?xy ! j)) Document))
                 \<and> flaky_embed (ns ! j) (batch_at ?xy (batch_starts ?xy ! j)) Document
                     = Inr (ress ! j)"
    and up: "upserted (trace ?w)
               = map (\<lambda>j. to_upsert ?xy (batch_starts ?xy ! j) (ress ! j)) [0..<length ress]"
    and triples: "\<forall>j<length ress. \<forall>l<length (upserted (trace ?w) ! j).
                 upserted (trace ?w) ! j ! l =
                   (''description_'' @ str_nat (batch_starts ?xy ! j + l), ress ! j ! l,
                    [''description'' \<mapsto> ?xy ! (batch_starts ?xy ! j + l)])"
    by (elim exE conjE)
  from full have len: "length ress = Suc 0" by (simp add: starts)
  have batch: "batch_at ?xy 0 = ?xy"
    by (simp add: batch_at_def py_slice_def batch_size_def)
  from each [THEN spec, of 0] have zero: "first_call 0 ns 0 \<le> ns ! 0
      \<and> (\<forall>m. first_call 0 ns 0 \<le> m \<and> m < ns ! 0 \<longrightarrow> isl (flaky_embed m ?xy Document))
      \<and> flaky_embed (ns ! 0) ?xy Document = Inr (ress ! 0)"
    by (simp add: len starts batch world0_def)
  then have first: "ns ! 0 = 0 + 2 \<and> ress ! 0 = map length ?xy"
    by (intro flaky_embed_first [where lo = 0]) (simp_all add: first_call_def)
  have n0: "ns ! 0 = 2" using first by simp
  have r0: "ress ! 0 = [1, 2]" using first by simp
  from zero have "flaky_embed (ns ! 0) ?xy Document = Inr (ress ! 0)" by blast
  then have answer: "flaky_embed 2 ?xy Document = Inr [1, 2]"
    unfolding n0 r0 .
  have up': "upserted (trace ?w) = [to_upsert ?xy 0 [1, 2]]"
    unfolding up len by (simp add: starts r0)
  have size: "length (upserted (trace ?w) ! 0) = 2"
    by (simp add: upserted_def)
  from triples [THEN spec, of 0, THEN mp, THEN spec, of 0]
  have t0: "upserted (trace ?w) ! 0 ! 0 = (''description_0'', 1, [''description'' \<mapsto> ''x''])"
    unfolding size by (simp add: len starts r0 str_nat.simps digit_char_def)
  from triples [THEN spec, of 0, THEN mp, THEN spec, of 1]
  have t1: "upserted (trace ?w) ! 0 ! 1 = (''description_1'', 2, [''description'' \<mapsto> ''yz''])"
    unfolding size by (simp add: len starts r0 str_nat.simps digit_char_def)
  have from_run: "\<exists>w'. upload flaky_embed upsert_accepts ?xy world0 = Some (Inr (), w')
          \<and> upserted (trace w') = [to_upsert ?xy 0 [1, 2]]
          \<and> upserted (trace w') ! 0 ! 0 = (''description_0'', 1, [''description'' \<mapsto> ''x''])
          \<and> upserted (trace w') ! 0 ! 1 = (''description_1'', 2, [''description'' \<mapsto> ''yz''])"
    by (intro exI [of _ ?w] conjI) (rule run, rule up', rule t0, rule t1)
  have len2: "length (batch_at ?ds 100) = 2"
    by (simp add: batch_at_def py_slice_def batch_size_def)
  from inst have "length (to_upsert ?ds 100 [7, 8 :: nat])
      = min (length (batch_at ?ds 100)) (length [7, 8 :: nat])"
    by (elim conjE)
  then have l2: "length (to_upsert ?ds 100 [7, 8 :: nat]) = 2"
    by (simp add: len2)
  then have "(1::nat) < length (to_upsert ?ds 100 [7, 8 :: nat])" by simp
  with inst [THEN conjunct2, THEN conjunct2, THEN conjunct1, THEN spec, of 1]
  have "to_upsert ?ds 100 [7, 8 :: nat] ! 1 =
            (''description_'' @ str_nat (100 + 1), [7, 8 :: nat] ! 1,
             [''description'' \<mapsto> ?ds ! (100 + 1)])
          \<and> dom (snd (snd (to_upsert ?ds 100 [7, 8 :: nat] ! 1))) = {''description''}"
    by (rule mp)
  moreover have "str_nat (100 + 1) = ''101''"
    by (simp add: str_nat.simps digit_char_def)
  moreover have "?ds ! (100 + 1) = ''c''"
    by (simp add: nth_append)
  ultimately have "to_upsert ?ds 100 [7, 8 :: nat] ! 1 =
      (''description_101'', 8, [''description'' \<mapsto> ''c''])
   \<and> length (to_upsert ?ds 100 [7, 8 :: nat]) = 2
   \<and> dom (snd (snd (to_upsert ?ds 100 [7, 8 :: nat] ! 1))) = {''description''}"
    using l2 by simp
  with answer from_run show ?thesis by (intro conjI) simp_all
qed

text \<open>
  C10.  In a run of the upload loop that starts from a trace without upserts, the ids of
  all triples handed to \<^verbatim>\<open>index.upsert\<close> are pairwise distinct, whether the run completes
  or an upsert raises; each triple carries the id \<^verbatim>\<open>description_k\<close> of the index \<open>k\<close> whose
  text is its metadata; the formatting of an index into an id is injective; and two
  different batch starts cover disjoint index ranges.
\<close>

theorem upload_ids_unique:
  "(\<forall>r w'. upload vo ups ds w = Some (r, w') \<and> upserted (trace w) = [] \<longrightarrow>
       distinct (upserted_ids (trace w'))
       \<and> (\<forall>t \<in> set (concat (upserted (trace w'))).
            \<exists>k<length ds. fst t = description_id k
                         \<and> snd (snd t) = [''description'' \<mapsto> ds ! k]))
   \<and> inj description_id
   \<and> (\<forall>i \<in> set (py_range 0 (length ds) batch_size).
        \<forall>i' \<in> set (py_range 0 (length ds) batch_size).
          i \<noteq> i' \<longrightarrow>
          set [i..<min (length ds) (i + batch_size)]
            \<inter> set [i'..<min (length ds) (i' + batch_size)] = {})"
proof (intro conjI allI impI ballI)
  fix r w' assume "upload vo ups ds w = Some (r, w') \<and> upserted (trace w) = []"
  then show "distinct (upserted_ids (trace w'))"
    using upload_ids_distinct [of vo ups ds w r w'] by blast
next
  fix r w' t
  assume "upload vo ups ds w = Some (r, w') \<and> upserted (trace w) = []"
    and "t \<in> set (concat (upserted (trace w')))"
  then show "\<exists>k<length ds. fst t = description_id k
                         \<and> snd (snd t) = [''description'' \<mapsto> ds ! k]"
    using upload_triples_positional [of vo ups ds w r w' t] by blast
next
  show "inj description_id"
    by (rule injI) (rule description_id_inj)
next
  fix i i'
  assume "i \<in> set (py_range 0 (length ds) batch_size)"
    and "i' \<in> set (py_range 0 (length ds) batch_size)" and "i \<noteq> i'"
  then show "set [i..<min (length ds) (i + batch_size)]
            \<inter> set [i'..<min (length ds) (i' + batch_size)] = {}"
    by (rule batch_ranges_disjoint)
qed

theorem upload_ids_unique_witness:
  "(\<exists>w'. upload flaky_embed upsert_accepts [''x'', ''yz''] world0 = Some (Inr (), w')
      \<and> upserted_ids (trace w') = [''description_0'', ''description_1'']
      \<and> distinct (upserted_ids (trace w'))
      \<and> (\<exists>k<2. ''description_1'' = description_id k
                 \<and> [''description'' \<mapsto> ''yz''] = [''description'' \<mapsto> [''x'', ''yz''] ! k]))
   \<and> description_id 7 \<noteq> description_id 70
   \<and> set [0..<min 101 (0 + batch_size)] \<inter> set [100..<min 101 (100 + batch_size)] = {}"
proof -
  note inst = upload_ids_unique [of flaky_embed upsert_accepts "[''x'', ''yz'']" world0]
  note inst101 = upload_ids_unique [of flaky_embed upsert_accepts "replicate 100 ''a'' @ [''b'']" world0]
  let ?w = "\<lparr>embed_calls = 3, upsert_calls = 1, query_calls = 0,
        trace = [Embed_failed [''x'', ''yz''] Document RateLimitError, Sleep 5,
                 Embed_failed [''x'', ''yz''] Document KeyboardInterrupt, Sleep 5,
                 Embed_ok [''x'', ''yz''] Document,
                 Upsert_ok [(''description_0'', 1, [''description'' \<mapsto> ''x'']),
                            (''description_1'', 2, [''description'' \<mapsto> ''yz''])]]\<rparr> :: nat world"
  have run: "upload flaky_embed upsert_accepts [''x'', ''yz''] world0 = Some (Inr (), ?w)"
    by (rule upload_two_descriptions)
  have fresh: "upserted (trace (world0 :: nat world)) = []"
    by (simp add: world0_def upserted_def)
  from inst run fresh have d: "distinct (upserted_ids (trace ?w))"
    by blast
  have ids: "upserted_ids (trace ?w) = [''description_0'', ''description_1'']"
    by (simp add: upserted_ids_def upserted_def)
  from inst have "inj description_id" by blast
  then have ne: "description_id 7 \<noteq> description_id 70"
    by (simp add: inj_eq)
  have starts: "py_range 0 (length (replicate 100 ''a'' @ [''b''])) batch_size = [0, 100]"
    by (simp add: py_range.simps batch_size_def)
  from inst101 have "\<forall>i \<in> set [0, 100 :: nat]. \<forall>i' \<in> set [0, 100 :: nat]. i \<noteq> i' \<longrightarrow>
          set [i..<min 101 (i + batch_size)] \<inter> set [i'..<min 101 (i' + batch_size)] = {}"
    unfolding starts by simp
  then have disjoint: "set [0..<min 101 (0 + batch_size)]
      \<inter> set [100..<min 101 (100 + batch_size)] = {}"
    by simp
  note triples = inst [THEN conjunct1, rule_format, of "Inr ()" ?w, THEN conjunct2, rule_format,
      of "(''description_1'', 2, [''description'' \<mapsto> ''yz''])"]
  have "(''description_1'', 2, [''description'' \<mapsto> ''yz''])
      \<in> set (concat (upserted (trace ?w)))"
    by (simp add: upserted_def)
  with run fresh have "\<exists>k<length [''x'', ''yz''].
      fst (''description_1'', 2 :: nat, [''description'' \<mapsto> ''yz'']) = description_id k
      \<and> snd (snd (''description_1'', 2 :: nat, [''description'' \<mapsto> ''yz'']))
          = [''description'' \<mapsto> [''x'', ''yz''] ! k]"
    by (intro triples conjI)
  then have triple: "\<exists>k<2. ''description_1'' = description_id k
                 \<and> [''description'' \<mapsto> ''yz''] = [''description'' \<mapsto> [''x'', ''yz''] ! k]"
    by (simp add: numeral_2_eq_2)
  have "\<exists>w'. upload flaky_embed upsert_accepts [''x'', ''yz''] world0 = Some (Inr (), w')
      \<and> upserted_ids (trace w') = [''description_0'', ''description_1'']
      \<and> distinct (upserted_ids (trace w'))
      \<and> (\<exists>k<2. ''description_1'' = description_id k
                 \<and> [''description'' \<mapsto> ''yz''] = [''description'' \<mapsto> [''x'', ''yz''] ! k])"
    by (intro exI [of _ ?w] conjI) (rule run, rule ids, rule d, rule triple)
  with ne disjoint show ?thesis by (intro conjI)
qed

section \<open>The keyword search loop\<close>

lemma queries_append: "queries (xs @ ys) = queries xs @ queries ys"
  by (simp add: queries_def)

lemma append_descriptions_Inr:
  "append_descriptions ms rs = Inr rs' \<Longrightarrow>
   map Some rs' = map Some rs @ map match_description ms"
proof (induction ms arbitrary: rs)
  case Nil
  then show ?case by simp
next
  case (Cons m ms)
  from Cons.prems obtain md d where md: "match_metadata m = Some md"
    and d: "md ''description'' = Some d"
    and rest: "append_descriptions ms (rs @ [d]) = Inr rs'"
    by (auto split: option.splits)
  from Cons.IH [OF rest] have "map Some rs' = map Some (rs @ [d]) @ map match_description ms" .
  moreover have "match_description m = Some d"
    by (simp add: match_description_def md d)
  ultimately show ?case by simp
qed

lemma search_loop_Cons_Inr:
  assumes "search_loop vo q (kw # rest) rs w = (Inr results, w')"
  obtains vec ms rs1 where "vo (embed_calls w) [kw] Query = Inr vec"
    and "q (query_calls w) vec 3 True = Inr ms"
    and "append_descriptions ms rs = Inr rs1"
    and "search_loop vo q rest rs1
           (w\<lparr>embed_calls := Suc (embed_calls w),
              query_calls := Suc (query_calls w),
              trace := trace w @ [Embed_ok [kw] Query, Query_ok vec 3 True]\<rparr>) = (Inr results, w')"
proof -
  from assms obtain vec where vec: "vo (embed_calls w) [kw] Query = Inr vec"
    by (cases "vo (embed_calls w) [kw] Query") auto
  from assms vec obtain ms where ms: "q (query_calls w) vec 3 True = Inr ms"
    by (cases "q (query_calls w) vec 3 True") (auto simp: Let_def)
  from assms vec ms obtain rs1 where rs1: "append_descriptions ms rs = Inr rs1"
    by (cases "append_descriptions ms rs") (auto simp: Let_def)
  from assms vec ms rs1 have "search_loop vo q rest rs1
           (w\<lparr>embed_calls := Suc (embed_calls w),
              query_calls := Suc (query_calls w),
              trace := trace w @ [Embed_ok [kw] Query, Query_ok vec 3 True]\<rparr>) = (Inr results, w')"
    by (simp add: Let_def)
  with vec ms rs1 show thesis by (rule that)
qed

lemma search_loop_Inr:
  "search_loop vo q kws rs w = (Inr results, w') \<Longrightarrow>
   \<exists>vecs resps. length vecs = length kws \<and> length resps = length kws
     \<and> (\<forall>j<length kws. vo (embed_calls w + j) [kws ! j] Query = Inr (vecs ! j)
            \<and> q (query_calls w + j) (vecs ! j) 3 True = Inr (resps ! j))
     \<and> queries (trace w') = queries (trace w) @ map (\<lambda>v. (v, 3, True)) vecs
     \<and> map Some results = map Some rs @ concat (map (map match_description) resps)"
proof (induction kws arbitrary: rs w)
  case Nil
  then have "length ([] :: 'a list list) = length ([] :: string list)
     \<and> length ([] :: scored_match list list) = length ([] :: string list)
     \<and> (\<forall>j<length ([] :: string list). vo (embed_calls w + j) [[] ! j] Query = Inr ([] ! j)
            \<and> q (query_calls w + j) ([] ! j) 3 True = Inr ([] ! j))
     \<and> queries (trace w') = queries (trace w) @ map (\<lambda>v. (v, 3, True)) []
     \<and> map Some results = map Some rs @ concat (map (map match_description) [])"
    by simp
  then show ?case by blast
next
  case (Cons kw rest)
  from Cons.prems obtain vec ms rs1 where vec: "vo (embed_calls w) [kw] Query = Inr vec"
    and ms: "q (query_calls w) vec 3 True = Inr ms"
    and rs1: "append_descriptions ms rs = Inr rs1"
    and loop: "search_loop vo q rest rs1
           (w\<lparr>embed_calls := Suc (embed_calls w),
              query_calls := Suc (query_calls w),
              trace := trace w @ [Embed_ok [kw] Query, Query_ok vec 3 True]\<rparr>) = (Inr results, w')"
    by (rule search_loop_Cons_Inr)
  define w2 where "w2 = w\<lparr>embed_calls := Suc (embed_calls w),
              query_calls := Suc (query_calls w),
              trace := trace w @ [Embed_ok [kw] Query, Query_ok vec 3 True]\<rparr>"
  from loop have "search_loop vo q rest rs1 w2 = (Inr results, w')"
    by (simp add: w2_def)
  from Cons.IH [OF this] obtain vecs resps where
    lv: "length vecs = length rest" and lr: "length resps = length rest"
    and calls: "\<forall>j<length rest. vo (embed_calls w2 + j) [rest ! j] Query = Inr (vecs ! j)
            \<and> q (query_calls w2 + j) (vecs ! j) 3 True = Inr (resps ! j)"
    and qs: "queries (trace w') = queries (trace w2) @ map (\<lambda>v. (v, 3, True)) vecs"
    and res: "map Some results = map Some rs1 @ concat (map (map match_description) resps)"
    by blast
  have calls': "\<forall>j<length (kw # rest).
      vo (embed_calls w + j) [(kw # rest) ! j] Query = Inr ((vec # vecs) ! j)
      \<and> q (query_calls w + j) ((vec # vecs) ! j) 3 True = Inr ((ms # resps) ! j)"
  proof (intro allI impI)
    fix j assume j: "j < length (kw # rest)"
    show "vo (embed_calls w + j) [(kw # rest) ! j] Query = Inr ((vec # vecs) ! j)
      \<and> q (query_calls w + j) ((vec # vecs) ! j) 3 True = Inr ((ms # resps) ! j)"
    proof (cases j)
      case 0
      with vec ms show ?thesis by simp
    next
      case (Suc j')
      with j have "j' < length rest" by simp
      with calls have "vo (embed_calls w2 + j') [rest ! j'] Query = Inr (vecs ! j')
            \<and> q (query_calls w2 + j') (vecs ! j') 3 True = Inr (resps ! j')"
        by blast
      then show ?thesis
        by (simp add: Suc w2_def)
    qed
  qed
  have qs': "queries (trace w') = queries (trace w) @ map (\<lambda>v. (v, 3, True)) (vec # vecs)"
    by (simp add: qs w2_def queries_append) (simp add: queries_def)
  have res': "map Some results = map Some rs @ concat (map (map match_description) (ms # resps))"
    using append_descriptions_Inr [OF rs1] by (simp add: res)
  have "length (vec # vecs) = length (kw # rest) \<and> length (ms # resps) = length (kw # rest)"
    by (simp add: lv lr)
  with calls' qs' res' show ?case by blast
qed

lemma length_concat_bound:
  "(\<forall>r \<in> set rs. length r \<le> k) \<Longrightarrow> length (concat rs) \<le> k * length rs"
  by (induction rs) auto

lemma keyword_search_run:
  "keyword_search embed_lengths sample_query [''science'', ''toys''] world0 =
     (Inr [''science kit'', ''magnet kit'', ''atom model'',
           ''science kit'', ''magnet kit'', ''atom model''],
      \<lparr>embed_calls = 2, upsert_calls = 0, query_calls = 2,
       trace = [Embed_ok [''science''] Query, Query_ok [7] 3 True,
                Embed_ok [''toys''] Query, Query_ok [4] 3 True]\<rparr>)"
  by (simp add: keyword_search_def embed_lengths_def sample_query_def sample_matches_def
      world0_def Let_def)

text \<open>
  C6.  In a keyword search that completes, one query is sent per keyword, in keyword
  order, each with \<^verbatim>\<open>top_k=3\<close> and \<^verbatim>\<open>include_metadata=True\<close> and with the vector the
  embedding service returned for that keyword; the results are the \<^verbatim>\<open>description\<close>
  metadata of the matches of each answer, in order.  When the index returns at most
  \<^verbatim>\<open>top_k\<close> matches per query, the results are at most three times the keywords.  The
  queries do not depend on what the index answers: a run against any other index that
  completes sends the same queries.
\<close>

theorem keyword_search_queries:
  "keyword_search vo q kws w = (Inr results, w') \<longrightarrow>
     (\<exists>vecs resps. length vecs = length kws \<and> length resps = length kws
        \<and> (\<forall>j<length kws. vo (embed_calls w + j) [kws ! j] Query = Inr (vecs ! j)
               \<and> q (query_calls w + j) (vecs ! j) 3 True = Inr (resps ! j))
        \<and> queries (trace w') = queries (trace w) @ map (\<lambda>v. (v, 3, True)) vecs
        \<and> map Some results = concat (map (map match_description) resps))
     \<and> length (queries (trace w')) = length (queries (trace w)) + length kws
     \<and> ((\<forall>n v k m ms. q n v k m = Inr ms \<longrightarrow> length ms \<le> k)
          \<longrightarrow> length results \<le> 3 * length kws)
     \<and> (\<forall>q' results' w''. keyword_search vo q' kws w = (Inr results', w'')
          \<longrightarrow> queries (trace w'') = queries (trace w'))"
proof
  assume run: "keyword_search vo q kws w = (Inr results, w')"
  then have "search_loop vo q kws [] w = (Inr results, w')"
    by (simp add: keyword_search_def)
  from search_loop_Inr [OF this] obtain vecs resps where
    lv: "length vecs = length kws" and lr: "length resps = length kws"
    and calls: "\<forall>j<length kws. vo (embed_calls w + j) [kws ! j] Query = Inr (vecs ! j)
               \<and> q (query_calls w + j) (vecs ! j) 3 True = Inr (resps ! j)"
    and qs: "queries (trace w') = queries (trace w) @ map (\<lambda>v. (v, 3, True)) vecs"
    and res: "map Some results = concat (map (map match_description) resps)"
    by auto
  have part1: "\<exists>vecs resps. length vecs = length kws \<and> length resps = length kws
        \<and> (\<forall>j<length kws. vo (embed_calls w + j) [kws ! j] Query = Inr (vecs ! j)
               \<and> q (query_calls w + j) (vecs ! j) 3 True = Inr (resps ! j))
        \<and> queries (trace w') = queries (trace w) @ map (\<lambda>v. (v, 3, True)) vecs
        \<and> map Some results = concat (map (map match_description) resps)"
    using lv lr calls qs res by blast
  have part2: "length (queries (trace w')) = length (queries (trace w)) + length kws"
    by (simp add: qs lv)
  have part3: "(\<forall>n v k m ms. q n v k m = Inr ms \<longrightarrow> length ms \<le> k)
          \<longrightarrow> length results \<le> 3 * length kws"
  proof
    assume top_k: "\<forall>n v k m ms. q n v k m = Inr ms \<longrightarrow> length ms \<le> k"
    have "\<forall>r \<in> set (map (map match_description) resps). length r \<le> 3"
    proof
      fix r assume "r \<in> set (map (map match_description) resps)"
      then obtain j where j: "j < length resps" and r: "r = map match_description (resps ! j)"
        by (auto simp: in_set_conv_nth)
      from j lr calls have "q (query_calls w + j) (vecs ! j) 3 True = Inr (resps ! j)"
        by simp
      with top_k have "length (resps ! j) \<le> 3" by blast
      with r show "length r \<le> 3" by simp
    qed
    then have "length (concat (map (map match_description) resps))
        \<le> 3 * length (map (map match_description) resps)"
      by (rule length_concat_bound)
    moreover have "length results = length (concat (map (map match_description) resps))"
      using res by (metis length_map)
    ultimately show "length results \<le> 3 * length kws"
      by (simp add: lr)
  qed
  have part4: "\<forall>q' results' w''. keyword_search vo q' kws w = (Inr results', w'')
          \<longrightarrow> queries (trace w'') = queries (trace w')"
  proof (intro allI impI)
    fix q' results' w''
    assume "keyword_search vo q' kws w = (Inr results', w'')"
    then have "search_loop vo q' kws [] w = (Inr results', w'')"
      by (simp add: keyword_search_def)
    from search_loop_Inr [OF this] obtain vecs' where
      lv': "length vecs' = length kws"
      and calls': "\<forall>j<length kws. vo (embed_calls w + j) [kws ! j] Query = Inr (vecs' ! j)"
      and qs': "queries (trace w'') = queries (trace w) @ map (\<lambda>v. (v, 3, True)) vecs'"
      by auto
    have "vecs' = vecs"
    proof (rule nth_equalityI)
      show "length vecs' = length vecs" by (simp add: lv lv')
    next
      fix j assume "j < length vecs'"
      with lv' have j: "j < length kws" by simp
      with calls have "vo (embed_calls w + j) [kws ! j] Query = Inr (vecs ! j)" by blast
      moreover from j calls' have "vo (embed_calls w + j) [kws ! j] Query = Inr (vecs' ! j)"
        by blast
      ultimately show "vecs' ! j = vecs ! j" by simp
    qed
    with qs qs' show "queries (trace w'') = queries (trace w')" by simp
  qed
  from part1 part2 part3 part4
  show "(\<exists>vecs resps. length vecs = length kws \<and> length resps = length kws
        \<and> (\<forall>j<length kws. vo (embed_calls w + j) [kws ! j] Query = Inr (vecs ! j)
               \<and> q (query_calls w + j) (vecs ! j) 3 True = Inr (resps ! j))
        \<and> queries (trace w') = queries (trace w) @ map (\<lambda>v. (v, 3, True)) vecs
        \<and> map Some results = concat (map (map match_description) resps))
     \<and> length (queries (trace w')) = length (queries (trace w)) + length kws
     \<and> ((\<forall>n v k m ms. q n v k m = Inr ms \<longrightarrow> length ms \<le> k)
          \<longrightarrow> length results \<le> 3 * length kws)
     \<and> (\<forall>q' results' w''. keyword_search vo q' kws w = (Inr results', w'')
          \<longrightarrow> queries (trace w'') = queries (trace w'))"
    by blast
qed

theorem keyword_search_queries_witness:
  "(\<exists>results w'. keyword_search embed_lengths sample_query [''science'', ''toys''] world0
        = (Inr results, w')
      \<and> results = [''science kit'', ''magnet kit'', ''atom model'',
                   ''science kit'', ''magnet kit'', ''atom model'']
      \<and> queries (trace w') = [([7], 3, True), ([4], 3, True)]
      \<and> length (queries (trace w')) = 2
      \<and> length results \<le> 3 * 2
      \<and> (\<exists>w''. keyword_search embed_lengths sparse_query [''science'', ''toys''] world0
             = (Inr [''science kit'', ''science kit''], w'')
           \<and> queries (trace w'') = queries (trace w')))"
proof -
  let ?results = "[''science kit'', ''magnet kit'', ''atom model'',
           ''science kit'', ''magnet kit'', ''atom model'']"
  let ?w = "\<lparr>embed_calls = 2, upsert_calls = 0, query_calls = 2,
       trace = [Embed_ok [''science''] Query, Query_ok [7] 3 True,
                Embed_ok [''toys''] Query, Query_ok [4] 3 True]\<rparr> :: nat world"
  note inst = keyword_search_queries [where vo = embed_lengths and q = sample_query
      and kws = "[''science'', ''toys'']" and w = world0 and results = ?results and w' = ?w]
  have run: "keyword_search embed_lengths sample_query [''science'', ''toys''] world0
      = (Inr ?results, ?w)"
    by (rule keyword_search_run)
  have top_k: "\<forall>n v k m ms. sample_query n v k m = Inr ms \<longrightarrow> length ms \<le> k"
    by (auto simp: sample_query_def)
  obtain w'' where other: "keyword_search embed_lengths sparse_query [''science'', ''toys''] world0
      = (Inr [''science kit'', ''science kit''], w'')"
    by (simp add: keyword_search_def embed_lengths_def sparse_query_def sample_matches_def
        world0_def Let_def)
  with inst run have same: "queries (trace w'') = queries (trace ?w)"
    by blast
  from inst run top_k have "length ?results \<le> 3 * length [''science'', ''toys'']"
    by blast
  moreover from inst run have "length (queries (trace ?w))
      = length (queries (trace (world0 :: nat world))) + length [''science'', ''toys'']"
    by blast
  moreover have "queries (trace ?w) = [([7], 3, True), ([4], 3, True)]"
    by (simp add: queries_def)
  ultimately have "?results = ?results
      \<and> queries (trace ?w) = [([7], 3, True), ([4], 3, True)]
      \<and> length (queries (trace ?w)) = 2
      \<and> length ?results \<le> 3 * 2"
    by (simp add: world0_def queries_def)
  with run other same show ?thesis by blast
qed

section \<open>Failures outside the retry loop\<close>











section \<open>Which functions depend on the services\<close>

lemma format_results_two:
  "format_results [''kit'', ''atom''] =
     ''\<newline><search_results>\<newline><item index=\"1\">\<newline><page_content>\<newline>kit\<newline></page_content>\<newline></item>\<newline><item index=\"2\">\<newline><page_content>\<newline>atom\<newline></page_content>\<newline></item>\<newline></search_results>''"
  by (simp add: format_results_def format_item_def Let_def str_nat.simps digit_char_def upt_rec)

text \<open>
  C3 (amended).  \<^verbatim>\<open>create_keyword_prompt\<close>, \<^verbatim>\<open>format_results\<close> and \<^verbatim>\<open>create_answer_prompt\<close> are
  deterministic: a call returns the same value in any two runs on equal arguments,
  whatever the services answer, namely the string built from the arguments.  Only the
  completion functions depend on a service: \<^verbatim>\<open>get_completion\<close> returns what the service
  answers for the prompt, so two runs on the same prompt differ exactly when the answers
  differ.
\<close>

theorem prompt_functions_deterministic:
  "(f = Create_keyword_prompt \<or> f = Format_results \<or> f = Create_answer_prompt
      \<longrightarrow> call_defined client mclient f args = call_defined client' mclient' f args)
   \<and> call_defined client mclient Create_keyword_prompt (Args_question question)
       = Inr (create_keyword_prompt question)
   \<and> call_defined client mclient Format_results (Args_extracted extracted)
       = Inr (format_results extracted)
   \<and> call_defined client mclient Create_answer_prompt (Args_results_question extracted question)
       = Inr (create_answer_prompt extracted question)
   \<and> call_defined client mclient Get_completion (Args_prompt prompt)
       = client ''claude-2.1'' prompt 1024
   \<and> (client ''claude-2.1'' prompt 1024 \<noteq> client' ''claude-2.1'' prompt 1024
      \<longrightarrow> call_defined client mclient Get_completion (Args_prompt prompt)
          \<noteq> call_defined client' mclient' Get_completion (Args_prompt prompt))"
proof (intro conjI impI)
  assume "f = Create_keyword_prompt \<or> f = Format_results \<or> f = Create_answer_prompt"
  then show "call_defined client mclient f args = call_defined client' mclient' f args"
    by (cases args) auto
next
  show get: "call_defined client mclient Get_completion (Args_prompt prompt)
       = client ''claude-2.1'' prompt 1024"
    by (cases "client ''claude-2.1'' prompt 1024") (simp_all add: get_completion_def)
  assume "client ''claude-2.1'' prompt 1024 \<noteq> client' ''claude-2.1'' prompt 1024"
  moreover have "call_defined client' mclient' Get_completion (Args_prompt prompt)
       = client' ''claude-2.1'' prompt 1024"
    by (cases "client' ''claude-2.1'' prompt 1024") (simp_all add: get_completion_def)
  ultimately show "call_defined client mclient Get_completion (Args_prompt prompt)
          \<noteq> call_defined client' mclient' Get_completion (Args_prompt prompt)"
    using get by simp
qed simp_all

theorem prompt_functions_deterministic_witness:
  "call_defined echo_client echo_messages Format_results (Args_extracted [''kit'', ''atom''])
     = call_defined terse_client terse_messages Format_results (Args_extracted [''kit'', ''atom''])
   \<and> call_defined echo_client echo_messages Format_results (Args_extracted [''kit'', ''atom''])
     = Inr ''\<newline><search_results>\<newline><item index=\"1\">\<newline><page_content>\<newline>kit\<newline></page_content>\<newline></item>\<newline><item index=\"2\">\<newline><page_content>\<newline>atom\<newline></page_content>\<newline></item>\<newline></search_results>''
   \<and> call_defined echo_client echo_messages Get_completion (Args_prompt ''Hello'')
     \<noteq> call_defined terse_client terse_messages Get_completion (Args_prompt ''Hello'')"
proof -
  note inst = prompt_functions_deterministic [where f = Format_results
      and client = echo_client and mclient = echo_messages
      and client' = terse_client and mclient' = terse_messages
      and args = "Args_extracted [''kit'', ''atom'']" and extracted = "[''kit'', ''atom'']"
      and prompt = "''Hello''"]
  have differ: "echo_client ''claude-2.1'' ''Hello'' 1024 \<noteq> terse_client ''claude-2.1'' ''Hello'' 1024"
    by (simp add: echo_client_def terse_client_def)
  from inst have "call_defined echo_client echo_messages Format_results (Args_extracted [''kit'', ''atom''])
     = call_defined terse_client terse_messages Format_results (Args_extracted [''kit'', ''atom''])"
    by blast
  moreover from inst have "call_defined echo_client echo_messages Format_results
      (Args_extracted [''kit'', ''atom'']) = Inr (format_results [''kit'', ''atom''])"
    by blast
  moreover from inst differ
  have "call_defined echo_client echo_messages Get_completion (Args_prompt ''Hello'')
     \<noteq> call_defined terse_client terse_messages Get_completion (Args_prompt ''Hello'')"
    by blast
  ultimately show ?thesis
    by (simp only: format_results_two) simp
qed

text \<open>
  C3, the claim as stated fails: it is not the case that every function the notebooks
  define can return different values in two runs on equal arguments; \<^verbatim>\<open>format_results\<close>
  cannot.
\<close>

theorem format_results_reproducible_counterexample:
  "\<not> (\<forall>f. \<exists>client client' (mclient :: (string, string) messages_service)
            (mclient' :: (string, string) messages_service) args.
          call_defined client mclient f args \<noteq> call_defined client' mclient' f args)"
proof
  assume "\<forall>f. \<exists>client client' (mclient :: (string, string) messages_service)
            (mclient' :: (string, string) messages_service) args.
          call_defined client mclient f args \<noteq> call_defined client' mclient' f args"
  then obtain client client' and mclient mclient' :: "(string, string) messages_service"
    and args :: "string nb_args"
    where "call_defined client mclient Format_results args
      \<noteq> call_defined client' mclient' Format_results args"
    by blast
  then show False
    by (cases args) simp_all
qed

section \<open>The structured-JSON notebook: extraction, fallback and schemas\<close>

lemma extract_tool_input_find:
  "extract_tool_input tool content = Option.bind (find (matching tool) content) block_input"
  by (induction content) (auto simp: matching_def block_input_def split: content_block.splits)

lemma extract_tool_input_None:
  "extract_tool_input tool content = None \<longleftrightarrow> (\<forall>c \<in> set content. \<not> matching tool c)"
  by (induction content) (auto simp: matching_def split: content_block.splits)

text \<open>
  C7 (amended).  The extraction loop of every example sets its result variable to the
  input of the first content block whose type is \<^verbatim>\<open>tool_use\<close> and whose name is the
  example's tool name, and the result stays \<open>None\<close> if and only if there is no such block.
  The fallback message is printed if and only if the result is false as a Python truth
  value: when there is no such block, and also when the first such block has the empty
  object as input.
\<close>

theorem extraction_and_fallback:
  "extract_tool_input tool content = Option.bind (find (matching tool) content) block_input
   \<and> (extract_tool_input tool content = None \<longleftrightarrow> (\<forall>c \<in> set content. \<not> matching tool c))
   \<and> (example1 content = [Print_text ''No JSON summary found in the response.'']
        \<longleftrightarrow> extract_tool_input ''print_summary'' content = None
          \<or> extract_tool_input ''print_summary'' content = Some [])
   \<and> (example2 content = [Print_text ''No entities found in the response.'']
        \<longleftrightarrow> extract_tool_input ''print_entities'' content = None
          \<or> extract_tool_input ''print_entities'' content = Some [])
   \<and> (example3 content = [Print_text ''No sentiment analysis found in the response.'']
        \<longleftrightarrow> extract_tool_input ''print_sentiment_scores'' content = None
          \<or> extract_tool_input ''print_sentiment_scores'' content = Some [])
   \<and> (example4 content = [Print_text ''No text classification found in the response.'']
        \<longleftrightarrow> extract_tool_input ''print_classification'' content = None
          \<or> extract_tool_input ''print_classification'' content = Some [])
   \<and> (example5 jc content = [Print_text ''Something went wrong.'']
        \<longleftrightarrow> extract_tool_input ''print_all_characteristics'' content = None
          \<or> extract_tool_input ''print_all_characteristics'' content = Some [])"
proof (intro conjI)
  show "extract_tool_input tool content = Option.bind (find (matching tool) content) block_input"
    by (rule extract_tool_input_find)
  show "extract_tool_input tool content = None \<longleftrightarrow> (\<forall>c \<in> set content. \<not> matching tool c)"
    by (rule extract_tool_input_None)
  show "example1 content = [Print_text ''No JSON summary found in the response.'']
        \<longleftrightarrow> extract_tool_input ''print_summary'' content = None
          \<or> extract_tool_input ''print_summary'' content = Some []"
    by (cases "extract_tool_input ''print_summary'' content")
      (auto simp: example1_def Let_def truthy_def)
  show "example2 content = [Print_text ''No entities found in the response.'']
        \<longleftrightarrow> extract_tool_input ''print_entities'' content = None
          \<or> extract_tool_input ''print_entities'' content = Some []"
    by (cases "extract_tool_input ''print_entities'' content")
      (auto simp: example2_def Let_def truthy_def)
  show "example3 content = [Print_text ''No sentiment analysis found in the response.'']
        \<longleftrightarrow> extract_tool_input ''print_sentiment_scores'' content = None
          \<or> extract_tool_input ''print_sentiment_scores'' content = Some []"
    by (cases "extract_tool_input ''print_sentiment_scores'' content")
      (auto simp: example3_def Let_def truthy_def)
  show "example4 content = [Print_text ''No text classification found in the response.'']
        \<longleftrightarrow> extract_tool_input ''print_classification'' content = None
          \<or> extract_tool_input ''print_classification'' content = Some []"
    by (cases "extract_tool_input ''print_classification'' content")
      (auto simp: example4_def Let_def truthy_def)
  show "example5 jc content = [Print_text ''Something went wrong.'']
        \<longleftrightarrow> extract_tool_input ''print_all_characteristics'' content = None
          \<or> extract_tool_input ''print_all_characteristics'' content = Some []"
    by (cases "extract_tool_input ''print_all_characteristics'' content")
      (auto simp: example5_def Let_def truthy_def)
qed

theorem extraction_and_fallback_witness:
  "extract_tool_input ''print_summary''
      [Text_block ''Here is the summary.'',
       Tool_use_block ''toolu_01'' ''print_entities'' [(''entities'', ''none'')],
       Tool_use_block ''toolu_02'' ''print_summary'' [(''author'', ''Anthropic'')],
       Tool_use_block ''toolu_03'' ''print_summary'' [(''author'', ''Someone else'')]]
     = Some [(''author'', ''Anthropic'')]
   \<and> example1
      [Text_block ''Here is the summary.'',
       Tool_use_block ''toolu_01'' ''print_entities'' [(''entities'', ''none'')],
       Tool_use_block ''toolu_02'' ''print_summary'' [(''author'', ''Anthropic'')],
       Tool_use_block ''toolu_03'' ''print_summary'' [(''author'', ''Someone else'')]]
     \<noteq> [Print_text ''No JSON summary found in the response.'']
   \<and> extract_tool_input ''print_summary''
        [Text_block ''I cannot summarise this.'' :: string content_block] = None
   \<and> example1 [Text_block ''I cannot summarise this.'' :: string content_block]
     = [Print_text ''No JSON summary found in the response.'']"
proof -
  let ?found = "[Text_block ''Here is the summary.'',
       Tool_use_block ''toolu_01'' ''print_entities'' [(''entities'', ''none'')],
       Tool_use_block ''toolu_02'' ''print_summary'' [(''author'', ''Anthropic'')],
       Tool_use_block ''toolu_03'' ''print_summary'' [(''author'', ''Someone else'')]]"
  let ?missing = "[Text_block ''I cannot summarise this.'' :: string content_block]"
  note found = extraction_and_fallback [where tool = "''print_summary''" and content = ?found
      and jc = None]
  note missing = extraction_and_fallback [where tool = "''print_summary''" and content = ?missing
      and jc = None]
  from found have "extract_tool_input ''print_summary'' ?found
      = Option.bind (find (matching ''print_summary'') ?found) block_input"
    by blast
  then have a: "extract_tool_input ''print_summary'' ?found = Some [(''author'', ''Anthropic'')]"
    by (simp add: matching_def block_input_def)
  with found have b: "example1 ?found \<noteq> [Print_text ''No JSON summary found in the response.'']"
    by simp
  have "\<forall>c \<in> set ?missing. \<not> matching ''print_summary'' c"
    by (simp add: matching_def)
  with missing have c: "extract_tool_input ''print_summary'' ?missing = None"
    by blast
  with missing have d: "example1 ?missing = [Print_text ''No JSON summary found in the response.'']"
    by blast
  from a b c d show ?thesis by blast
qed

text \<open>
  C7, the claim as stated fails: a response of Example 5 holds a matching tool-use block
  whose input is the empty object; the result is that input, not \<open>None\<close>, and the fallback
  message is printed all the same.
\<close>

theorem fallback_despite_block_counterexample:
  "matching ''print_all_characteristics''
      (Tool_use_block ''toolu_01'' ''print_all_characteristics'' ([] :: (string \<times> string) list))
   \<and> extract_tool_input ''print_all_characteristics''
        [Text_block ''Listing the characteristics.'',
         Tool_use_block ''toolu_01'' ''print_all_characteristics'' ([] :: (string \<times> string) list)]
       = Some []
   \<and> example5 None
        [Text_block ''Listing the characteristics.'',
         Tool_use_block ''toolu_01'' ''print_all_characteristics'' ([] :: (string \<times> string) list)]
       = [Print_text ''Something went wrong.'']"
  by (simp add: matching_def example5_def truthy_def)

text \<open>
  C8 (amended).  In Example 5, whenever the extracted \<^verbatim>\<open>tool_output\<close> is true as a Python
  truth value (a matching block with a non-empty input was found), the cell prints the
  header \<^verbatim>\<open>Characteristics (JSON):\<close> followed by the dump of \<^verbatim>\<open>json_classification\<close>, the
  result variable of Example 4, whatever \<^verbatim>\<open>tool_output\<close> holds; otherwise it prints
  \<^verbatim>\<open>Something went wrong.\<close>
\<close>

theorem example5_prints_classification:
  "(truthy (extract_tool_input ''print_all_characteristics'' content)
      \<longrightarrow> example5 jc content = [Print_text ''Characteristics (JSON):'', Print_json_dumps jc 2])
   \<and> (\<not> truthy (extract_tool_input ''print_all_characteristics'' content)
      \<longrightarrow> example5 jc content = [Print_text ''Something went wrong.''])
   \<and> (truthy (extract_tool_input ''print_all_characteristics'' content)
      \<and> truthy (extract_tool_input ''print_all_characteristics'' content')
      \<longrightarrow> example5 jc content = example5 jc content')
   \<and> snd (examples_4_and_5 earlier content)
       = example5 (extract_tool_input ''print_classification'' earlier) content"
  by (simp add: example5_def examples_4_and_5_def Let_def)

theorem example5_prints_classification_witness:
  "snd (examples_4_and_5
      [Tool_use_block ''toolu_04'' ''print_classification'' [(''categories'', ''Technology'')]]
      [Tool_use_block ''toolu_05'' ''print_all_characteristics'' [(''height'', ''tall'')]])
     = [Print_text ''Characteristics (JSON):'',
        Print_json_dumps (Some [(''categories'', ''Technology'')]) 2]
   \<and> example5 (Some [(''categories'', ''Technology'')])
        [Tool_use_block ''toolu_05'' ''print_all_characteristics'' [(''height'', ''tall'')]]
     = example5 (Some [(''categories'', ''Technology'')])
        [Tool_use_block ''toolu_06'' ''print_all_characteristics'' [(''voice'', ''deep'')]]
   \<and> example5 (Some [(''categories'', ''Technology'')])
        [Text_block ''I have no tool to call.'']
     = [Print_text ''Something went wrong.'']"
proof -
  let ?r4 = "[Tool_use_block ''toolu_04'' ''print_classification'' [(''categories'', ''Technology'')]]"
  let ?r5 = "[Tool_use_block ''toolu_05'' ''print_all_characteristics'' [(''height'', ''tall'')]]"
  let ?r5' = "[Tool_use_block ''toolu_06'' ''print_all_characteristics'' [(''voice'', ''deep'')]]"
  let ?none = "[Text_block ''I have no tool to call.''] :: string content_block list"
  let ?jc = "Some [(''categories'', ''Technology'')]"
  note inst = example5_prints_classification [where content = ?r5 and content' = ?r5'
      and jc = ?jc and earlier = ?r4]
  note inst_none = example5_prints_classification [where content = ?none and jc = ?jc]
  have t: "truthy (extract_tool_input ''print_all_characteristics'' ?r5)"
    and t': "truthy (extract_tool_input ''print_all_characteristics'' ?r5')"
    and f: "\<not> truthy (extract_tool_input ''print_all_characteristics'' ?none)"
    by (simp_all add: truthy_def)
  have jc: "extract_tool_input ''print_classification'' ?r4 = ?jc"
    by simp
  from inst t have "example5 ?jc ?r5 = [Print_text ''Characteristics (JSON):'', Print_json_dumps ?jc 2]"
    by blast
  moreover from inst have "snd (examples_4_and_5 ?r4 ?r5)
       = example5 (extract_tool_input ''print_classification'' ?r4) ?r5"
    by blast
  moreover from inst t t' have "example5 ?jc ?r5 = example5 ?jc ?r5'"
    by blast
  moreover from inst_none f have "example5 ?jc ?none = [Print_text ''Something went wrong.'']"
    by blast
  ultimately show ?thesis
    by (simp only: jc)
qed

text \<open>
  C8, the claim as stated fails: with a matching block whose input is the empty object,
  \<^verbatim>\<open>tool_output\<close> is not \<open>None\<close>, and yet the cell does not print the header and the
  classification.
\<close>

theorem tool_output_ignored_counterexample:
  "extract_tool_input ''print_all_characteristics''
      [Tool_use_block ''toolu_07'' ''print_all_characteristics'' ([] :: (string \<times> string) list)]
     \<noteq> None
   \<and> example5 (Some [(''categories'', ''Technology'')])
        [Tool_use_block ''toolu_07'' ''print_all_characteristics'' ([] :: (string \<times> string) list)]
     \<noteq> [Print_text ''Characteristics (JSON):'',
         Print_json_dumps (Some [(''categories'', ''Technology'')]) 2]"
  by (simp add: example5_def truthy_def)

text \<open>
  C9.  The schema of \<^verbatim>\<open>print_summary\<close> requires \<^verbatim>\<open>counterpoint\<close>, which is the one required
  name that its properties do not declare; in the other four tools, and in the element
  schemas nested in two of them, every required name is a declared property.
\<close>

theorem print_summary_requires_undeclared:
  "set (required_names (input_schema print_summary_tool))
     - set (property_names (input_schema print_summary_tool)) = {''counterpoint''}
   \<and> \<not> required_declared (input_schema print_summary_tool)
   \<and> required_declared (input_schema print_entities_tool)
   \<and> required_declared (input_schema print_sentiment_scores_tool)
   \<and> required_declared (input_schema print_classification_tool)
   \<and> required_declared (input_schema print_all_characteristics_tool)
   \<and> required_declared (items_schema (input_schema print_entities_tool) ''entities'')
   \<and> required_declared (items_schema (input_schema print_classification_tool) ''categories'')"
  by (simp add: required_declared_def required_names_def property_names_def input_schema_def
      items_schema_def print_summary_tool_def print_entities_tool_def
      print_sentiment_scores_tool_def print_classification_tool_def
      print_all_characteristics_tool_def)

end
